theory Spec2Isabelle
  imports Complex_Main "HOL-Library.Multiset"
begin

unbundle bit_operations_syntax

section \<open>Terrain generator (terraingen.py)\<close>

text \<open>
  A shallow embedding of \<^verbatim>\<open>src/terraingen.py\<close>. Python \<^verbatim>\<open>int\<close> is \<^typ>\<open>int\<close>,
  Python \<^verbatim>\<open>float\<close> is idealised as \<^typ>\<open>real\<close> (no rounding, no infinities), a
  raised exception is the \<open>Inl\<close> branch of a sum, and the mutable generator object is a
  record that every stage takes and returns. The library class \<^verbatim>\<open>random.Random\<close> is
  not part of the repository: its operations are a parameter of the model.
\<close>

subsection \<open>Errors\<close>

datatype error = ValueError string | ZeroDivisionError | KeyError string

subsection \<open>Data model\<close>

record Tile =
  tile_x :: int
  tile_y :: int
  elevation :: real
  moisture :: real
  biome :: string
  water :: bool
  river :: bool
  river_size :: int
  terrain_feature :: "string option"

record River =
  river_id :: string
  source :: "int \<times> int"
  mouth :: "int \<times> int"
  path :: "(int \<times> int) list"
  river_length :: nat

record SimplexNoise =
  noise_seed :: int
  perm :: "int list"

text \<open>The operations of \<^verbatim>\<open>random.Random\<close> that the generator calls, over an abstract
  generator state \<open>'r\<close>; each returns its result and the advanced state.\<close>

record 'r random_ops =
  rng_of_seed :: "int \<Rightarrow> 'r"
  rng_shuffle :: "'r \<Rightarrow> int list \<Rightarrow> int list \<times> 'r"
  rng_randint :: "'r \<Rightarrow> int \<Rightarrow> int \<Rightarrow> int \<times> 'r"
  rng_random :: "'r \<Rightarrow> real \<times> 'r"
  rng_sample :: "'r \<Rightarrow> (int \<times> int) list \<Rightarrow> nat \<Rightarrow> (int \<times> int) list \<times> 'r"

record 'r TerrainGenerator =
  width :: int
  height :: int
  seed :: int
  mode :: string
  octaves :: int
  persistence :: real
  lacunarity :: real
  scale :: real
  river_count :: int
  prevailing_wind :: string
  rng :: 'r
  noise :: SimplexNoise
  tiles :: "Tile list list"
  rivers :: "River list"

subsection \<open>SimplexNoise\<close>

definition SimplexNoise_init :: "'r random_ops \<Rightarrow> int \<Rightarrow> SimplexNoise" where
  "SimplexNoise_init R sd =
     (let p = fst (rng_shuffle R (rng_of_seed R sd) (map int [0..<256]))
      in \<lparr>noise_seed = sd, perm = p @ p\<rparr>)"

text \<open>Python's \<^verbatim>\<open>int(x)\<close> on a float truncates toward zero.\<close>

definition py_int :: "real \<Rightarrow> int" where
  "py_int x = (if 0 \<le> x then \<lfloor>x\<rfloor> else \<lceil>x\<rceil>)"

definition fade :: "real \<Rightarrow> real" where
  "fade t = t * t * t * (t * (t * 6 - 15) + 10)"

definition lerp :: "real \<Rightarrow> real \<Rightarrow> real \<Rightarrow> real" where
  "lerp a b t = a + t * (b - a)"

definition grad :: "int \<Rightarrow> real \<Rightarrow> real \<Rightarrow> real" where
  "grad hash_val x y =
     (let h = hash_val AND 3;
          u = (if h < 2 then x else y);
          v = (if h < 2 then y else x)
      in (if h AND 1 = 0 then u else - u) + (if h AND 2 = 0 then v else - v))"

text \<open>The table is read as \<^verbatim>\<open>self.perm[i]\<close>; the constructor makes it 512 long with
  entries in 0..255, so every index below is in range.\<close>

definition noise2d :: "SimplexNoise \<Rightarrow> real \<Rightarrow> real \<Rightarrow> real" where
  "noise2d N x y =
     (let xi = py_int x AND 255;
          yi = py_int y AND 255;
          xf = x - real_of_int (py_int x);
          yf = y - real_of_int (py_int y);
          u = fade xf;
          v = fade yf;
          aa = perm N ! nat (perm N ! nat xi + yi);
          ab = perm N ! nat (perm N ! nat xi + yi + 1);
          ba = perm N ! nat (perm N ! nat (xi + 1) + yi);
          bb = perm N ! nat (perm N ! nat (xi + 1) + yi + 1);
          x1 = lerp (grad aa xf yf) (grad ba (xf - 1) yf) u;
          x2 = lerp (grad ab xf (yf - 1)) (grad bb (xf - 1) (yf - 1)) u
      in lerp x1 x2 v)"

subsection \<open>TerrainGenerator.__init__\<close>

definition TerrainGenerator_init ::
  "'r random_ops \<Rightarrow> int \<Rightarrow> int \<Rightarrow> int \<Rightarrow> string \<Rightarrow> int \<Rightarrow> real \<Rightarrow> real \<Rightarrow> real \<Rightarrow> int \<Rightarrow> string
     \<Rightarrow> error + 'r TerrainGenerator" where
  "TerrainGenerator_init R w h sd m oc pe la sc rc wi =
     (if w < 50 \<or> h < 50
      then Inl (ValueError ''Map size must be at least 50x50 for realistic noise generation'')
      else Inr \<lparr>width = w, height = h, seed = sd, mode = m, octaves = oc, persistence = pe,
                lacunarity = la, scale = sc, river_count = rc, prevailing_wind = wi,
                rng = rng_of_seed R sd, noise = SimplexNoise_init R sd,
                tiles = [], rivers = []\<rparr>)"

subsection \<open>Biome classification\<close>

text \<open>The rule table is a dictionary from biome name to a dictionary from
  \<^verbatim>\<open>'elevation'\<close> / \<^verbatim>\<open>'moisture'\<close> to a two-element list; both are association lists
  read with \<^const>\<open>map_of\<close>.\<close>

type_synonym biome_rules = "(string \<times> (string \<times> real list) list) list"

definition load_biome_rules :: biome_rules where
  "load_biome_rules =
     [(''deep_ocean'', [(''elevation'', [0.0, 0.3])]),
      (''ocean'', [(''elevation'', [0.3, 0.38])]),
      (''beach'', [(''elevation'', [0.38, 0.42])]),
      (''desert'', [(''elevation'', [0.42, 0.7]), (''moisture'', [0.0, 0.25])]),
      (''grassland'', [(''elevation'', [0.42, 0.7]), (''moisture'', [0.25, 0.6])]),
      (''temperate_forest'', [(''elevation'', [0.42, 0.7]), (''moisture'', [0.6, 1.0])]),
      (''wetlands'', [(''elevation'', [0.42, 0.5]), (''moisture'', [0.7, 1.0])]),
      (''highland'', [(''elevation'', [0.7, 0.78])]),
      (''mountain'', [(''elevation'', [0.78, 1.0])])]"

definition priority :: "string list" where
  "priority = [''deep_ocean'', ''ocean'', ''beach'', ''mountain'', ''highland'',
               ''wetlands'', ''temperate_forest'', ''grassland'', ''desert'']"

text \<open>\<^verbatim>\<open>rule.get(key, [0, 1])\<close>.\<close>

definition rule_get :: "(string \<times> real list) list \<Rightarrow> string \<Rightarrow> real list" where
  "rule_get rule k = (case map_of rule k of None \<Rightarrow> [0, 1] | Some r \<Rightarrow> r)"

text \<open>The loop over the priority list; \<^verbatim>\<open>rules[biome]\<close> raises KeyError on a table that
  lacks the biome.\<close>

fun determine_biome_loop :: "string list \<Rightarrow> real \<Rightarrow> real \<Rightarrow> biome_rules \<Rightarrow> error + string" where
  "determine_biome_loop [] e m rules = Inr ''grassland''"
| "determine_biome_loop (b # bs) e m rules =
     (case map_of rules b of
        None \<Rightarrow> Inl (KeyError b)
      | Some rule \<Rightarrow>
          (let elev_range = rule_get rule ''elevation'';
               moist_range = rule_get rule ''moisture''
           in if (elev_range ! 0 \<le> e \<and> e < elev_range ! 1) \<and>
                 (moist_range ! 0 \<le> m \<and> m \<le> moist_range ! 1)
              then Inr b
              else determine_biome_loop bs e m rules))"

definition determine_biome :: "real \<Rightarrow> real \<Rightarrow> biome_rules \<Rightarrow> error + string" where
  "determine_biome e m rules = determine_biome_loop priority e m rules"

subsection \<open>Elevation synthesis\<close>

text \<open>The octave loop of \<^verbatim>\<open>_generate_elevation\<close>; the state is
  (elevation, amplitude, frequency, max_value).\<close>

fun octave_loop ::
  "SimplexNoise \<Rightarrow> real \<Rightarrow> real \<Rightarrow> real \<Rightarrow> int \<Rightarrow> int \<Rightarrow> nat \<Rightarrow> real \<times> real \<times> real \<times> real
     \<Rightarrow> real \<times> real \<times> real \<times> real" where
  "octave_loop N sc pe la x y 0 st = st"
| "octave_loop N sc pe la x y (Suc n) (e, amplitude, frequency, max_value) =
     (let sample_x = real_of_int x / sc * frequency;
          sample_y = real_of_int y / sc * frequency;
          noise_val = noise2d N sample_x sample_y
      in octave_loop N sc pe la x y n
           (e + noise_val * amplitude, amplitude * pe, frequency * la, max_value + amplitude))"

text \<open>The island loop of the archipelago mode; the state is (max_influence, rng).\<close>

fun island_loop ::
  "'r random_ops \<Rightarrow> int \<Rightarrow> int \<Rightarrow> int \<Rightarrow> int \<Rightarrow> nat \<Rightarrow> real \<times> 'r \<Rightarrow> real \<times> 'r" where
  "island_loop R w h x y 0 st = st"
| "island_loop R w h x y (Suc n) (max_influence, r) =
     (let (u1, r1) = rng_random R r;
          island_x = u1 * real_of_int w;
          (u2, r2) = rng_random R r1;
          island_y = u2 * real_of_int h;
          dx = (real_of_int x - island_x) / real_of_int w;
          dy = (real_of_int y - island_y) / real_of_int h;
          distance = sqrt (dx * dx + dy * dy);
          influence = max 0 (1 - distance * 3)
      in island_loop R w h x y n (max max_influence influence, r2))"

text \<open>\<^verbatim>\<open>_apply_mode_shaping\<close>, with the generator's \<^verbatim>\<open>self.rng\<close> passed and returned.
  Its divisions by the width and the height cannot fail: it is called for a tile, so
  both are at least 1.\<close>

definition apply_mode_shaping ::
  "'r random_ops \<Rightarrow> 'r TerrainGenerator \<Rightarrow> 'r \<Rightarrow> int \<Rightarrow> int \<Rightarrow> real \<Rightarrow> real \<times> 'r" where
  "apply_mode_shaping R g r x y e =
     (if mode g = ''continent'' then
        (let center_x = real_of_int (width g) / 2;
             center_y = real_of_int (height g) / 2;
             dx = (real_of_int x - center_x) / (real_of_int (width g) * 0.8);
             dy = (real_of_int y - center_y) / (real_of_int (height g) * 0.8);
             distance = sqrt (dx * dx + dy * dy);
             falloff = max 0 (1 - distance * distance * 0.8)
         in (e * 0.3 + (e * falloff) * 0.7, r))
      else if mode g = ''archipelago'' then
        (let (k, r1) = rng_randint R r 0 3;
             island_count = 5 + k;
             (max_influence, r2) =
                island_loop R (width g) (height g) x y (nat island_count) (0, r1)
         in (e * max_influence, r2))
      else if mode g = ''highlands'' then
        (let base = 0.5 in (base + e * 0.5, r))
      else (e, r))"

text \<open>The body of the tile loop of \<^verbatim>\<open>_generate_elevation\<close>. A float division by zero
  raises ZeroDivisionError: \<^verbatim>\<open>x / self.scale\<close> in the octave loop,
  \<^verbatim>\<open>elevation / max_value\<close>, and \<^verbatim>\<open>warp_x / self.scale\<close>.\<close>

definition elevation_tile ::
  "'r random_ops \<Rightarrow> 'r TerrainGenerator \<Rightarrow> 'r \<Rightarrow> int \<Rightarrow> int \<Rightarrow> error + (Tile \<times> 'r)" where
  "elevation_tile R g r x y =
     (if 0 < octaves g \<and> scale g = 0 then Inl ZeroDivisionError
      else
        (let (e0, amplitude, frequency, max_value) =
               octave_loop (noise g) (scale g) (persistence g) (lacunarity g) x y
                 (nat (octaves g)) (0, 1, 1, 0)
         in if max_value = 0 then Inl ZeroDivisionError
            else
              (let e1 = (e0 / max_value + 1) / 2;
                   warp_x = real_of_int x
                      + noise2d (noise g) (real_of_int x * 0.03) (real_of_int y * 0.03) * 10;
                   warp_y = real_of_int y
                      + noise2d (noise g) (real_of_int x * 0.03 + 100) (real_of_int y * 0.03 + 100) * 10
               in if scale g = 0 then Inl ZeroDivisionError
                  else
                    (let warp_sample_x = warp_x / scale g;
                         warp_sample_y = warp_y / scale g;
                         warp_noise = noise2d (noise g) warp_sample_x warp_sample_y;
                         e2 = e1 * 0.6 + ((warp_noise + 1) / 2) * 0.4;
                         (e3, r') = apply_mode_shaping R g r x y e2;
                         e4 = (if mode g \<noteq> ''none'' then e3 * 1.5 else e3);
                         e5 = max 0 (min 1 e4)
                     in Inr (\<lparr>tile_x = x, tile_y = y, elevation = e5, moisture = 0,
                               biome = [], water = (e5 < 0.4), river = False,
                               river_size = 0, terrain_feature = None\<rparr>, r')))))"

fun elevation_row ::
  "'r random_ops \<Rightarrow> 'r TerrainGenerator \<Rightarrow> int \<Rightarrow> int list \<Rightarrow> 'r \<Rightarrow> error + (Tile list \<times> 'r)" where
  "elevation_row R g y [] r = Inr ([], r)"
| "elevation_row R g y (x # xs) r =
     (case elevation_tile R g r x y of
        Inl err \<Rightarrow> Inl err
      | Inr (t, r1) \<Rightarrow>
          (case elevation_row R g y xs r1 of
             Inl err \<Rightarrow> Inl err
           | Inr (ts, r2) \<Rightarrow> Inr (t # ts, r2)))"

fun elevation_rows ::
  "'r random_ops \<Rightarrow> 'r TerrainGenerator \<Rightarrow> int list \<Rightarrow> 'r \<Rightarrow> error + (Tile list list \<times> 'r)" where
  "elevation_rows R g [] r = Inr ([], r)"
| "elevation_rows R g (y # ys) r =
     (case elevation_row R g y (map int [0..<nat (width g)]) r of
        Inl err \<Rightarrow> Inl err
      | Inr (row, r1) \<Rightarrow>
          (case elevation_rows R g ys r1 of
             Inl err \<Rightarrow> Inl err
           | Inr (rows, r2) \<Rightarrow> Inr (row # rows, r2)))"

definition generate_elevation ::
  "'r random_ops \<Rightarrow> 'r TerrainGenerator \<Rightarrow> error + 'r TerrainGenerator" where
  "generate_elevation R g =
     (case elevation_rows R g (map int [0..<nat (height g)]) (rng g) of
        Inl err \<Rightarrow> Inl err
      | Inr (rows, r') \<Rightarrow> Inr (g\<lparr>tiles := rows, rng := r'\<rparr>))"

subsection \<open>Hydrology\<close>

text \<open>The grid is read as \<^verbatim>\<open>self.tiles[y][x]\<close>. Every read below is behind a bounds
  check of the source or at a coordinate taken from the grid, so on a grid of
  \<open>height\<close> rows of \<open>width\<close> tiles no index is out of range.\<close>

definition tile_at :: "'r TerrainGenerator \<Rightarrow> int \<Rightarrow> int \<Rightarrow> Tile" where
  "tile_at g x y = tiles g ! nat y ! nat x"

definition set_tile :: "Tile list list \<Rightarrow> int \<Rightarrow> int \<Rightarrow> Tile \<Rightarrow> Tile list list" where
  "set_tile ts x y t = ts[nat y := (ts ! nat y)[nat x := t]]"

definition grid_coords :: "'r TerrainGenerator \<Rightarrow> (int \<times> int) list" where
  "grid_coords g =
     concat (map (\<lambda>y. map (\<lambda>x. (x, y)) (map int [0..<nat (width g)]))
                 (map int [0..<nat (height g)]))"

definition river_sources :: "'r TerrainGenerator \<Rightarrow> (int \<times> int) list" where
  "river_sources g =
     filter (\<lambda>(x, y). let tile = tile_at g x y in elevation tile > 0.7 \<and> \<not> water tile)
            (grid_coords g)"

definition get_neighbors :: "'r TerrainGenerator \<Rightarrow> int \<Rightarrow> int \<Rightarrow> (int \<times> int) list" where
  "get_neighbors g x y =
     filter (\<lambda>(nx, ny). 0 \<le> nx \<and> nx < width g \<and> 0 \<le> ny \<and> ny < height g)
            (map (\<lambda>(dx, dy). (x + dx, y + dy)) [(0, 1), (1, 0), (0, - 1), (- 1, 0)])"

text \<open>The loop over the neighbours in \<^verbatim>\<open>_trace_river_path\<close>; the state is
  (lowest, lowest_elevation).\<close>

fun lowest_loop ::
  "'r TerrainGenerator \<Rightarrow> (int \<times> int) set \<Rightarrow> (int \<times> int) list \<Rightarrow> (int \<times> int) option \<times> real
     \<Rightarrow> (int \<times> int) option \<times> real" where
  "lowest_loop g visited [] st = st"
| "lowest_loop g visited ((nx, ny) # ns) (lowest, lowest_elevation) =
     (if (nx, ny) \<in> visited then lowest_loop g visited ns (lowest, lowest_elevation)
      else
        (let neighbor_tile = tile_at g nx ny
         in if elevation neighbor_tile < lowest_elevation
            then lowest_loop g visited ns (Some (nx, ny), elevation neighbor_tile)
            else lowest_loop g visited ns (lowest, lowest_elevation)))"

text \<open>The while loop of \<^verbatim>\<open>_trace_river_path\<close>, with its counter; it returns the path
  and the number of iterations performed.\<close>

function trace_loop ::
  "'r TerrainGenerator \<Rightarrow> int \<Rightarrow> int \<Rightarrow> int \<times> int \<Rightarrow> (int \<times> int) list \<Rightarrow> (int \<times> int) set
     \<Rightarrow> (int \<times> int) list \<times> int" where
  "trace_loop g max_iterations iterations (current_x, current_y) p visited =
     (if iterations < max_iterations then
        (let current_tile = tile_at g current_x current_y
         in if water current_tile then (p, iterations + 1)
            else
              (case fst (lowest_loop g visited (get_neighbors g current_x current_y)
                           (None, elevation current_tile)) of
                 None \<Rightarrow> (p, iterations + 1)
               | Some lowest \<Rightarrow>
                   trace_loop g max_iterations (iterations + 1) lowest (p @ [lowest])
                     (insert lowest visited)))
      else (p, iterations))"
  by pat_completeness auto
termination
  by (relation "measure (\<lambda>(g, max_iterations, iterations, c, p, visited).
                  nat (max_iterations - iterations))") auto

declare trace_loop.simps [simp del]

definition trace_river_path :: "'r TerrainGenerator \<Rightarrow> int \<Rightarrow> int \<Rightarrow> (int \<times> int) list" where
  "trace_river_path g start_x start_y =
     fst (trace_loop g (width g * height g) 0 (start_x, start_y) [(start_x, start_y)]
            {(start_x, start_y)})"

text \<open>\<^verbatim>\<open>f"river_{idx:03d}"\<close>: the index in decimal, padded with zeros to three digits.\<close>

fun decimal :: "nat \<Rightarrow> string" where
  "decimal n = (if n < 10 then [char_of (48 + n)]
                else decimal (n div 10) @ [char_of (48 + n mod 10)])"

declare decimal.simps [simp del]

definition format_03d :: "nat \<Rightarrow> string" where
  "format_03d n = replicate (3 - length (decimal n)) (CHR ''0'') @ decimal n"

fun mark_path :: "Tile list list \<Rightarrow> (int \<times> int) list \<Rightarrow> Tile list list" where
  "mark_path ts [] = ts"
| "mark_path ts ((x, y) # ps) =
     mark_path (set_tile ts x y ((ts ! nat y ! nat x)\<lparr>river := True\<rparr>)) ps"

text \<open>The loop over \<^verbatim>\<open>enumerate(selected_sources)\<close>.\<close>

fun rivers_loop ::
  "'r TerrainGenerator \<Rightarrow> (nat \<times> (int \<times> int)) list \<Rightarrow> 'r TerrainGenerator" where
  "rivers_loop g [] = g"
| "rivers_loop g ((idx, (start_x, start_y)) # rest) =
     (let p = trace_river_path g start_x start_y
      in if length p > 10
         then rivers_loop
                (g\<lparr>rivers := rivers g @
                       [\<lparr>river_id = ''river_'' @ format_03d idx, source = (start_x, start_y),
                         mouth = last p, path = p, river_length = length p\<rparr>],
                   tiles := mark_path (tiles g) p\<rparr>) rest
         else rivers_loop g rest)"

text \<open>\<^verbatim>\<open>_generate_rivers\<close>. The library's \<^verbatim>\<open>sample(population, k)\<close> raises ValueError
  unless \<open>0 \<le> k \<le> len(population)\<close>; here \<open>k \<le> len(sources)\<close> always holds, so only a
  negative river count raises.\<close>

definition generate_rivers ::
  "'r random_ops \<Rightarrow> 'r TerrainGenerator \<Rightarrow> error + 'r TerrainGenerator" where
  "generate_rivers R g =
     (let sources = river_sources g;
          actual_river_count =
            (if int (length sources) < river_count g then int (length sources)
             else river_count g)
      in if actual_river_count < 0
         then Inl (ValueError ''Sample larger than population or is negative'')
         else
           (let (selected_sources, r') = rng_sample R (rng g) sources (nat actual_river_count)
            in Inr (rivers_loop (g\<lparr>rng := r'\<rparr>) (List.enumerate 0 selected_sources))))"

subsection \<open>Climate\<close>

text \<open>\<^verbatim>\<open>_distance_to_water\<close>: \<open>None\<close> stands for \<^verbatim>\<open>float('inf')\<close>.\<close>

definition distance_to_water :: "'r TerrainGenerator \<Rightarrow> int \<Rightarrow> int \<Rightarrow> real" where
  "distance_to_water g x y =
     (let search_radius = 40;
          found = concat (map (\<lambda>dy. concat (map (\<lambda>dx.
                    (let nx = x + dx; ny = y + dy
                     in if 0 \<le> nx \<and> nx < width g \<and> 0 \<le> ny \<and> ny < height g
                        then (let tile = tile_at g nx ny
                              in if water tile \<or> river tile then [\<bar>dx\<bar> + \<bar>dy\<bar>] else [])
                        else []))
                    [- search_radius..search_radius]))
                    [- search_radius..search_radius]);
          min_distance = fold (\<lambda>distance m. case m of None \<Rightarrow> Some distance
                                               | Some d \<Rightarrow> Some (min d distance)) found None
      in case min_distance of None \<Rightarrow> real_of_int search_radius | Some d \<Rightarrow> real_of_int d)"

definition wind_direction :: "string \<Rightarrow> int \<times> int" where
  "wind_direction w =
     (case map_of [(''west'', (- 1, 0)), (''east'', (1, 0)), (''north'', (0, - 1)),
                   (''south'', (0, 1))] w of
        None \<Rightarrow> (- 1, 0)
      | Some d \<Rightarrow> d)"

text \<open>The loop of \<^verbatim>\<open>_calculate_rain_shadow\<close> over \<^verbatim>\<open>range(1, check_distance)\<close>.\<close>

fun rain_shadow_loop ::
  "'r TerrainGenerator \<Rightarrow> int \<Rightarrow> int \<Rightarrow> int \<Rightarrow> int \<Rightarrow> int list \<Rightarrow> real \<Rightarrow> real" where
  "rain_shadow_loop g x y dx dy [] max_blocking = max_blocking"
| "rain_shadow_loop g x y dx dy (i # rest) max_blocking =
     (let check_x = x + dx * i;
          check_y = y + dy * i
      in if 0 \<le> check_x \<and> check_x < width g \<and> 0 \<le> check_y \<and> check_y < height g
         then (let tile = tile_at g check_x check_y
               in if elevation tile > 0.7
                  then rain_shadow_loop g x y dx dy rest
                         (max max_blocking ((elevation tile - 0.7) * 0.5))
                  else rain_shadow_loop g x y dx dy rest max_blocking)
         else rain_shadow_loop g x y dx dy rest max_blocking)"

definition calculate_rain_shadow :: "'r TerrainGenerator \<Rightarrow> int \<Rightarrow> int \<Rightarrow> real" where
  "calculate_rain_shadow g x y =
     (let (dx, dy) = wind_direction (prevailing_wind g);
          check_distance = 15
      in rain_shadow_loop g x y dx dy (map int [1..<check_distance]) 0)"

text \<open>The body of the tile loop of \<^verbatim>\<open>_calculate_moisture\<close>: it writes the moisture of
  the tile at (x, y) in place.\<close>

definition moisture_step :: "'r TerrainGenerator \<Rightarrow> int \<times> int \<Rightarrow> 'r TerrainGenerator" where
  "moisture_step g c =
     (case c of (x, y) \<Rightarrow>
        (let tile = tile_at g x y;
             water_distance = distance_to_water g x y;
             water_moisture = max 0 (1 - water_distance / 30);
             elevation_moisture = elevation tile * 0.3;
             rain_shadow = calculate_rain_shadow g x y;
             m = water_moisture + elevation_moisture - rain_shadow;
             m' = max 0 (min 1 m)
         in g\<lparr>tiles := set_tile (tiles g) x y (tile\<lparr>moisture := m'\<rparr>)\<rparr>))"

definition calculate_moisture :: "'r TerrainGenerator \<Rightarrow> 'r TerrainGenerator" where
  "calculate_moisture g = foldl moisture_step g (grid_coords g)"

subsection \<open>Biome assignment\<close>

fun assign_biomes_loop ::
  "biome_rules \<Rightarrow> 'r TerrainGenerator \<Rightarrow> (int \<times> int) list \<Rightarrow> error + 'r TerrainGenerator" where
  "assign_biomes_loop rules g [] = Inr g"
| "assign_biomes_loop rules g ((x, y) # rest) =
     (let tile = tile_at g x y
      in case determine_biome (elevation tile) (moisture tile) rules of
           Inl err \<Rightarrow> Inl err
         | Inr b \<Rightarrow>
             assign_biomes_loop rules
               (g\<lparr>tiles := set_tile (tiles g) x y (tile\<lparr>biome := b\<rparr>)\<rparr>) rest)"

definition assign_biomes :: "'r TerrainGenerator \<Rightarrow> error + 'r TerrainGenerator" where
  "assign_biomes g = assign_biomes_loop load_biome_rules g (grid_coords g)"

subsection \<open>Serialisation and the pipeline\<close>

text \<open>\<^verbatim>\<open>round(v, 3)\<close> on the idealised value: to the nearest multiple of 1/1000, halves
  to the even neighbour.\<close>

definition py_round3 :: "real \<Rightarrow> real" where
  "py_round3 v =
     (let s = v * 1000; f = \<lfloor>s\<rfloor>; d = s - real_of_int f;
          n = (if d < 1 / 2 then f else if 1 / 2 < d then f + 1
               else if even f then f else f + 1)
      in real_of_int n / 1000)"

record TileDict =
  d_x :: int
  d_y :: int
  d_elevation :: real
  d_moisture :: real
  d_biome :: string
  d_water :: bool
  d_river :: bool

record RiverDict =
  d_id :: string
  d_source :: "int list"
  d_mouth :: "int list"
  d_length :: nat

record Features =
  mountain_ranges :: "string list"
  lakes :: "string list"

record GenerationParams =
  p_octaves :: int
  p_persistence :: real
  p_lacunarity :: real
  p_scale :: real
  p_river_count :: int
  p_prevailing_wind :: string

record Terrain =
  schema :: string
  t_seed :: int
  t_width :: int
  t_height :: int
  t_mode :: string
  generation_params :: GenerationParams
  t_tiles :: "TileDict list"
  t_rivers :: "RiverDict list"
  features :: Features

definition identify_features :: "'r TerrainGenerator \<Rightarrow> Features" where
  "identify_features g = \<lparr>mountain_ranges = [], lakes = []\<rparr>"

definition to_dict :: "'r TerrainGenerator \<Rightarrow> Features \<Rightarrow> Terrain" where
  "to_dict g fs =
     \<lparr>schema = ''terrain.v1'', t_seed = seed g, t_width = width g, t_height = height g,
      t_mode = mode g,
      generation_params =
        \<lparr>p_octaves = octaves g, p_persistence = persistence g, p_lacunarity = lacunarity g,
         p_scale = scale g, p_river_count = river_count g,
         p_prevailing_wind = prevailing_wind g\<rparr>,
      t_tiles = map (\<lambda>(x, y). let tile = tile_at g x y
                     in \<lparr>d_x = tile_x tile, d_y = tile_y tile,
                         d_elevation = py_round3 (elevation tile),
                         d_moisture = py_round3 (moisture tile), d_biome = biome tile,
                         d_water = water tile, d_river = river tile\<rparr>) (grid_coords g),
      t_rivers = map (\<lambda>r. \<lparr>d_id = river_id r, d_source = [fst (source r), snd (source r)],
                           d_mouth = [fst (mouth r), snd (mouth r)],
                           d_length = river_length r\<rparr>) (rivers g),
      features = fs\<rparr>"

text \<open>\<^verbatim>\<open>generate\<close>: the five steps in order; it returns the dictionary, and the
  generator object as the run leaves it.\<close>

definition generate ::
  "'r random_ops \<Rightarrow> 'r TerrainGenerator \<Rightarrow> error + (Terrain \<times> 'r TerrainGenerator)" where
  "generate R g =
     (case generate_elevation R g of
        Inl err \<Rightarrow> Inl err
      | Inr g1 \<Rightarrow>
          (case generate_rivers R g1 of
             Inl err \<Rightarrow> Inl err
           | Inr g2 \<Rightarrow>
               (let g3 = calculate_moisture g2
                in case assign_biomes g3 of
                     Inl err \<Rightarrow> Inl err
                   | Inr g4 \<Rightarrow> Inr (to_dict g4 (identify_features g4), g4))))"

subsection \<open>Notions used in the statements\<close>

text \<open>A grid as \<^verbatim>\<open>_generate_elevation\<close> builds it: \<open>height\<close> rows of \<open>width\<close> tiles.\<close>

definition wf_grid :: "'r TerrainGenerator \<Rightarrow> bool" where
  "wf_grid g =
     (length (tiles g) = nat (height g) \<and> (\<forall>row \<in> set (tiles g). length row = nat (width g)))"

definition in_bounds :: "'r TerrainGenerator \<Rightarrow> int \<times> int \<Rightarrow> bool" where
  "in_bounds g c = (0 \<le> fst c \<and> fst c < width g \<and> 0 \<le> snd c \<and> snd c < height g)"

definition elev :: "'r TerrainGenerator \<Rightarrow> int \<times> int \<Rightarrow> real" where
  "elev g c = elevation (tile_at g (fst c) (snd c))"

text \<open>The decision of one iteration of the while loop of \<^verbatim>\<open>_trace_river_path\<close> at the
  current coordinate: \<open>None\<close> when the loop breaks (water, or no lower unvisited
  neighbour), otherwise the neighbour it moves to.\<close>

definition river_step ::
  "'r TerrainGenerator \<Rightarrow> (int \<times> int) set \<Rightarrow> int \<times> int \<Rightarrow> (int \<times> int) option" where
  "river_step g visited c =
     (if water (tile_at g (fst c) (snd c)) then None
      else fst (lowest_loop g visited (get_neighbors g (fst c) (snd c))
                  (None, elevation (tile_at g (fst c) (snd c)))))"

text \<open>From position \<open>k\<close> on, every coordinate of the path is the step taken at the one
  before it, with the path so far as the visited set.\<close>

definition chain_from :: "'r TerrainGenerator \<Rightarrow> (int \<times> int) list \<Rightarrow> nat \<Rightarrow> bool" where
  "chain_from g p k =
     (\<forall>i. k \<le> Suc i \<and> Suc i < length p \<longrightarrow>
        river_step g (set (take (Suc i) p)) (p ! i) = Some (p ! Suc i))"

text \<open>Consecutive coordinates differ by exactly one step in one axis.\<close>

definition four_connected :: "(int \<times> int) list \<Rightarrow> bool" where
  "four_connected p =
     (\<forall>i. Suc i < length p \<longrightarrow>
        \<bar>fst (p ! Suc i) - fst (p ! i)\<bar> + \<bar>snd (p ! Suc i) - snd (p ! i)\<bar> = 1)"

text \<open>What the model assumes of the library's \<^verbatim>\<open>random.sample(population, k)\<close> for
  \<open>k \<le> len(population)\<close>: a list of \<open>k\<close> elements drawn from the population without
  replacement.\<close>

definition sample_ok :: "'r random_ops \<Rightarrow> bool" where
  "sample_ok R =
     (\<forall>r xs k. k \<le> length xs \<longrightarrow>
        length (fst (rng_sample R r xs k)) = k \<and> mset (fst (rng_sample R r xs k)) \<subseteq># mset xs)"

text \<open>The rain shadow as the specification words it, to compare with
  \<^const>\<open>calculate_rain_shadow\<close>: the 15 cells directly upwind are scanned.\<close>

definition spec_rain_shadow :: "'r TerrainGenerator \<Rightarrow> int \<Rightarrow> int \<Rightarrow> real" where
  "spec_rain_shadow g x y =
     (let (dx, dy) = wind_direction (prevailing_wind g)
      in rain_shadow_loop g x y dx dy (map int [1..<16]) 0)"

text \<open>Two generators with the same extent whose tiles agree on elevation and water.\<close>

definition same_terrain :: "'r TerrainGenerator \<Rightarrow> 'r TerrainGenerator \<Rightarrow> bool" where
  "same_terrain g g' =
     (width g' = width g \<and> height g' = height g \<and> map length (tiles g') = map length (tiles g) \<and>
      (\<forall>j i. elevation (tiles g' ! j ! i) = elevation (tiles g ! j ! i) \<and>
             water (tiles g' ! j ! i) = water (tiles g ! j ! i)))"

text \<open>The sources whose traced path is long enough, and the river made of one.\<close>

definition kept_sources ::
  "'r TerrainGenerator \<Rightarrow> (nat \<times> (int \<times> int)) list \<Rightarrow> (nat \<times> (int \<times> int)) list" where
  "kept_sources g sel =
     filter (\<lambda>s. length (trace_river_path g (fst (snd s)) (snd (snd s))) > 10) sel"

definition make_river :: "'r TerrainGenerator \<Rightarrow> nat \<times> (int \<times> int) \<Rightarrow> River" where
  "make_river g s =
     \<lparr>river_id = ''river_'' @ format_03d (fst s), source = snd s,
      mouth = last (trace_river_path g (fst (snd s)) (snd (snd s))),
      path = trace_river_path g (fst (snd s)) (snd (snd s)),
      river_length = length (trace_river_path g (fst (snd s)) (snd (snd s)))\<rparr>"

text \<open>What the tile constructor call of \<^verbatim>\<open>_generate_elevation\<close> establishes.\<close>

definition fresh_tile :: "Tile \<Rightarrow> bool" where
  "fresh_tile t =
     (water t = (elevation t < 0.4) \<and> 0 \<le> elevation t \<and> elevation t \<le> 1 \<and> \<not> river t \<and>
      moisture t = 0)"

text \<open>\<open>g'\<close> differs from \<open>g\<close> at most in the moisture and biome of its tiles.\<close>

definition same_fields :: "'r TerrainGenerator \<Rightarrow> 'r TerrainGenerator \<Rightarrow> bool" where
  "same_fields g g' =
     ((\<exists>ts. g' = g\<lparr>tiles := ts\<rparr>) \<and> map length (tiles g') = map length (tiles g) \<and>
      (\<forall>j i. elevation (tiles g' ! j ! i) = elevation (tiles g ! j ! i) \<and>
             water (tiles g' ! j ! i) = water (tiles g ! j ! i) \<and>
             river (tiles g' ! j ! i) = river (tiles g ! j ! i)))"

subsection \<open>Concrete inputs\<close>

text \<open>A 50 x 50 grid whose only high tiles are the column x = 0 (elevation 0.9); every
  other tile has elevation 0.5. The wind is the default, west.\<close>

definition shadow_tile :: "int \<Rightarrow> int \<Rightarrow> Tile" where
  "shadow_tile x y =
     \<lparr>tile_x = x, tile_y = y, elevation = (if x = 0 then 0.9 else 0.5), moisture = 0,
      biome = [], water = False, river = False, river_size = 0, terrain_feature = None\<rparr>"

definition shadow_grid :: "unit TerrainGenerator" where
  "shadow_grid =
     \<lparr>width = 50, height = 50, seed = 0, mode = ''none'', octaves = 5, persistence = 0.5,
      lacunarity = 2, scale = 100, river_count = 8, prevailing_wind = ''west'', rng = (),
      noise = \<lparr>noise_seed = 0, perm = []\<rparr>,
      tiles = map (\<lambda>y. map (\<lambda>x. shadow_tile x y) (map int [0..<50])) (map int [0..<50]),
      rivers = []\<rparr>"

text \<open>A single row of 12 tiles rising from the water tile (0, 0) (elevation 0.3) to the
  tile (11, 0) (elevation 0.73), the only tile above 0.7.\<close>

definition ramp_tile :: "int \<Rightarrow> int \<Rightarrow> Tile" where
  "ramp_tile x y =
     (let e = (if x = 0 then 0.3 else 0.4 + 0.03 * real_of_int x)
      in \<lparr>tile_x = x, tile_y = y, elevation = e, moisture = 0, biome = [], water = (e < 0.4),
          river = False, river_size = 0, terrain_feature = None\<rparr>)"

definition ramp_grid :: "unit TerrainGenerator" where
  "ramp_grid =
     \<lparr>width = 12, height = 1, seed = 0, mode = ''none'', octaves = 5, persistence = 0.5,
      lacunarity = 2, scale = 100, river_count = 8, prevailing_wind = ''west'', rng = (),
      noise = \<lparr>noise_seed = 0, perm = []\<rparr>,
      tiles = [map (\<lambda>x. ramp_tile x 0) (map int [0..<12])],
      rivers = []\<rparr>"

text \<open>A stand-in for the library's generator, used to instantiate the theorems at
  concrete inputs: it leaves a shuffled list as it is, draws the lower bound, 0.0, and the
  first \<open>k\<close> elements of a population.\<close>

definition fixed_random :: "unit random_ops" where
  "fixed_random =
     \<lparr>rng_of_seed = (\<lambda>sd. ()), rng_shuffle = (\<lambda>r xs. (xs, r)),
      rng_randint = (\<lambda>r a b. (a, r)), rng_random = (\<lambda>r. (0, r)),
      rng_sample = (\<lambda>r xs k. (take k xs, r))\<rparr>"

text \<open>The generator that the constructor returns for a 50 x 50 map, seed 1 and the
  default parameters, over \<^const>\<open>fixed_random\<close>.\<close>

definition default_generator :: "unit TerrainGenerator" where
  "default_generator =
     \<lparr>width = 50, height = 50, seed = 1, mode = ''continent'', octaves = 5, persistence = 0.5,
      lacunarity = 2, scale = 100, river_count = 8, prevailing_wind = ''west'',
      rng = rng_of_seed fixed_random 1, noise = SimplexNoise_init fixed_random 1,
      tiles = [], rivers = []\<rparr>"

text \<open>The river that the hydrology stage traces on \<^const>\<open>ramp_grid\<close>.\<close>

definition ramp_river :: River where
  "ramp_river =
     \<lparr>river_id = ''river_000'', source = (11, 0), mouth = (0, 0),
      path = [(11, 0), (10, 0), (9, 0), (8, 0), (7, 0), (6, 0), (5, 0), (4, 0), (3, 0), (2, 0),
              (1, 0), (0, 0)],
      river_length = 12\<rparr>"

text \<open>The generator at the start of the hydrology stage of a second \<^verbatim>\<open>generate()\<close> on
  the same object: \<^verbatim>\<open>_generate_elevation\<close> has rebuilt the grid (the same elevations, all
  river flags cleared), and \<^verbatim>\<open>self.rivers\<close> is as the first run left it.\<close>

definition ramp_second_run :: "unit TerrainGenerator" where
  "ramp_second_run = (projr (generate_rivers fixed_random ramp_grid))\<lparr>tiles := tiles ramp_grid\<rparr>"

text \<open>The table that the library's \<^verbatim>\<open>random.Random(1).shuffle(list(range(256)))\<close>
  leaves (CPython 3), that is \<^verbatim>\<open>SimplexNoise(1).perm[:256]\<close>, and the noise field of seed 1.\<close>

definition perm_seed1 :: "int list" where
  "perm_seed1 =
     [233, 254, 66, 183, 15, 211, 234, 222, 119, 187, 176, 159, 19, 134, 17, 36,
      193, 18, 225, 101, 180, 152, 40, 197, 92, 245, 80, 73, 118, 84, 203, 186,
      54, 188, 153, 202, 165, 158, 177, 71, 139, 227, 28, 89, 136, 207, 121, 49,
      249, 91, 157, 38, 13, 235, 238, 87, 217, 250, 12, 50, 221, 123, 239, 39,
      162, 82, 60, 63, 156, 105, 107, 83, 116, 67, 163, 20, 21, 169, 37, 113,
      96, 144, 198, 34, 31, 35, 132, 57, 214, 10, 9, 86, 4, 32, 137, 149,
      23, 230, 168, 160, 220, 29, 102, 191, 76, 143, 42, 148, 147, 79, 69, 232,
      229, 190, 240, 45, 104, 167, 172, 64, 170, 189, 70, 212, 46, 111, 61, 14,
      109, 52, 33, 98, 1, 226, 224, 90, 200, 131, 253, 199, 215, 51, 3, 223,
      181, 146, 43, 154, 78, 11, 244, 208, 125, 94, 236, 133, 41, 27, 130, 204,
      22, 95, 140, 93, 44, 192, 103, 62, 122, 8, 174, 100, 179, 127, 150, 72,
      77, 48, 171, 129, 210, 128, 182, 85, 248, 75, 209, 161, 47, 25, 164, 142,
      106, 218, 74, 117, 246, 206, 173, 241, 88, 59, 141, 247, 112, 231, 56, 135,
      219, 185, 108, 55, 175, 242, 2, 138, 243, 6, 5, 237, 81, 26, 151, 58,
      252, 184, 255, 114, 178, 0, 196, 251, 155, 110, 99, 213, 228, 7, 124, 24,
      53, 201, 97, 166, 120, 115, 194, 126, 30, 65, 16, 195, 205, 216, 145, 68]"

definition noise_seed1 :: SimplexNoise where
  "noise_seed1 = \<lparr>noise_seed = 1, perm = perm_seed1 @ perm_seed1\<rparr>"

text \<open>A library generator whose shuffle under seed 1 is that table, and the generator
  object that \<^verbatim>\<open>TerrainGenerator(50, 50, seed=1, mode='highlands', scale=5.0)\<close>
  constructs with it (every other parameter at its default).\<close>

definition seed1_random :: "unit random_ops" where
  "seed1_random = fixed_random\<lparr>rng_shuffle := (\<lambda>r xs. (perm_seed1, r))\<rparr>"

definition highlands_generator :: "unit TerrainGenerator" where
  "highlands_generator =
     \<lparr>width = 50, height = 50, seed = 1, mode = ''highlands'', octaves = 5, persistence = 0.5,
      lacunarity = 2, scale = 5, river_count = 8, prevailing_wind = ''west'',
      rng = (), noise = noise_seed1, tiles = [], rivers = []\<rparr>"

section \<open>Properties\<close>

subsection \<open>Biome classifier\<close>

text \<open>
  C10: a tile whose elevation is exactly 1.0 matches no rule of the biome table, because
  every elevation range is half-open at its upper bound (mountain is [0.78, 1.0)); the
  classifier returns the default biome 'grassland' whatever the moisture is.
\<close>

theorem determine_biome_elevation_one:
  "determine_biome 1 m load_biome_rules = Inr ''grassland''"
  by (simp add: determine_biome_def priority_def load_biome_rules_def rule_get_def)

subsection \<open>Constructor\<close>

text \<open>
  C9: constructing the generator raises the input-validation error (ValueError) exactly
  when width < 50 or height < 50; the error is the whole result, so no generator object
  and no grid exists when it is raised, and a successful construction starts from an
  empty grid and an empty river list.
\<close>

theorem init_validation:
  "(\<exists>e. TerrainGenerator_init R w h sd m oc pe la sc rc wi = Inl e) = (w < 50 \<or> h < 50)
   \<and> (TerrainGenerator_init R w h sd m oc pe la sc rc wi =
        Inl (ValueError ''Map size must be at least 50x50 for realistic noise generation''))
       = (w < 50 \<or> h < 50)
   \<and> (\<exists>g. TerrainGenerator_init R w h sd m oc pe la sc rc wi = Inr g \<and> tiles g = [] \<and> rivers g = [])
       = (50 \<le> w \<and> 50 \<le> h)"
  by (auto simp: TerrainGenerator_init_def)

subsection \<open>Noise\<close>

lemma and3_cases: "(h::int) AND 3 = 0 \<or> h AND 3 = 1 \<or> h AND 3 = 2 \<or> h AND 3 = 3"
proof -
  have "h AND 3 = h mod 4"
    using take_bit_eq_mask[of 2 h] take_bit_eq_mod[of 2 h] by (simp add: mask_eq_exp_minus_1)
  moreover have "0 \<le> h mod 4" "h mod 4 < 4" by simp_all
  ultimately show ?thesis by arith
qed

text \<open>The four hash classes give only three gradients: classes 1 and 2 coincide.\<close>

lemma grad_cases:
  "grad h x y = x + y \<or> grad h x y = - x + y \<or> grad h x y = - y - x"
  using and3_cases[of h] by (auto simp: grad_def Let_def)

text \<open>
  C6: the noise function is claimed to return a value in [-1, 1] for every seed and every
  real coordinates. At the coordinates (-0.9, 0) the code returns a value outside
  [-1, 1] whatever the permutation table (hence whatever the seed) is: \<^verbatim>\<open>int(x)\<close>
  truncates toward zero, so the fractional offset is -0.9, the fade curve is evaluated
  outside [0, 1] (fade(-0.9) = -20.67...) and the interpolation extrapolates.
\<close>

theorem noise2d_out_of_range:
  "noise2d N (- 9 / 10) 0 < - 1 \<or> 1 < noise2d N (- 9 / 10) 0"
proof -
  define a where "a = grad (perm N ! nat (perm N ! nat 0 + 0)) (- (9/10)) 0"
  define b where "b = grad (perm N ! nat (perm N ! nat (0 + 1) + 0)) (- (9/10) - 1) 0"
  have i: "py_int (- (9/10)) = 0" "py_int 0 = 0" by (simp_all add: py_int_def)
  have n: "noise2d N (- 9 / 10) 0 = a + fade (- (9/10)) * (b - a)"
    by (simp add: noise2d_def Let_def i lerp_def a_def b_def fade_def)
  have f: "fade (- (9/10)) = - (516861 / 25000)" by (simp add: fade_def)
  have ca: "a = 9/10 \<or> a = - (9/10)"
    using grad_cases[of _ "- (9/10)" 0] unfolding a_def by auto
  have cb: "b = 19/10 \<or> b = - (19/10)"
    using grad_cases[of _ "- (9/10) - 1" 0] unfolding b_def by auto
  show ?thesis unfolding n f using ca cb by argo
qed

subsection \<open>River tracing\<close>

lemma lowest_loop_choice:
  "lowest_loop g V ns (l, le) = (r, re) \<Longrightarrow>
     ((\<forall>n \<in> set ns. n \<notin> V \<longrightarrow> le \<le> elev g n) \<and> r = l \<and> re = le) \<or>
     (\<exists>pre c post. ns = pre @ c # post \<and> r = Some c \<and> re = elev g c \<and> c \<notin> V \<and> elev g c < le \<and>
        (\<forall>p \<in> set pre. p \<notin> V \<longrightarrow> elev g c < elev g p) \<and>
        (\<forall>q \<in> set post. q \<notin> V \<longrightarrow> elev g c \<le> elev g q))"
proof (induction ns arbitrary: l le)
  case Nil
  then show ?case by simp
next
  case (Cons a rest)
  obtain nx ny where a: "a = (nx, ny)" by (cases a)
  show ?case
  proof (cases "a \<in> V")
    case True
    with Cons.prems a have "lowest_loop g V rest (l, le) = (r, re)" by simp
    from Cons.IH[OF this] show ?thesis
    proof (elim disjE exE conjE)
      assume "\<forall>n\<in>set rest. n \<notin> V \<longrightarrow> le \<le> elev g n" "r = l" "re = le"
      with True show ?thesis by simp
    next
      fix pre c post
      assume h: "rest = pre @ c # post" "r = Some c" "re = elev g c" "c \<notin> V" "elev g c < le"
        "\<forall>p\<in>set pre. p \<notin> V \<longrightarrow> elev g c < elev g p" "\<forall>q\<in>set post. q \<notin> V \<longrightarrow> elev g c \<le> elev g q"
      have "a # rest = (a # pre) @ c # post" using h(1) by simp
      moreover have "\<forall>p\<in>set (a # pre). p \<notin> V \<longrightarrow> elev g c < elev g p" using h(6) True by simp
      ultimately show ?thesis using h by blast
    qed
  next
    case False
    show ?thesis
    proof (cases "elev g a < le")
      case lt: True
      with Cons.prems a False have "lowest_loop g V rest (Some a, elev g a) = (r, re)"
        by (simp add: elev_def Let_def)
      from Cons.IH[OF this] show ?thesis
      proof (elim disjE exE conjE)
        assume h: "\<forall>n\<in>set rest. n \<notin> V \<longrightarrow> elev g a \<le> elev g n" "r = Some a" "re = elev g a"
        have "a # rest = [] @ a # rest" by simp
        then show ?thesis using h False lt by (metis empty_iff empty_set)
      next
        fix pre c post
        assume h: "rest = pre @ c # post" "r = Some c" "re = elev g c" "c \<notin> V" "elev g c < elev g a"
          "\<forall>p\<in>set pre. p \<notin> V \<longrightarrow> elev g c < elev g p" "\<forall>q\<in>set post. q \<notin> V \<longrightarrow> elev g c \<le> elev g q"
        have "a # rest = (a # pre) @ c # post" using h(1) by simp
        moreover have "\<forall>p\<in>set (a # pre). p \<notin> V \<longrightarrow> elev g c < elev g p" using h(5,6) by simp
        moreover have "elev g c < le" using h(5) lt by simp
        ultimately show ?thesis using h by blast
      qed
    next
      case ge: False
      with Cons.prems a False have "lowest_loop g V rest (l, le) = (r, re)"
        by (simp add: elev_def Let_def)
      from Cons.IH[OF this] show ?thesis
      proof (elim disjE exE conjE)
        assume "\<forall>n\<in>set rest. n \<notin> V \<longrightarrow> le \<le> elev g n" "r = l" "re = le"
        with ge show ?thesis by simp
      next
        fix pre c post
        assume h: "rest = pre @ c # post" "r = Some c" "re = elev g c" "c \<notin> V" "elev g c < le"
          "\<forall>p\<in>set pre. p \<notin> V \<longrightarrow> elev g c < elev g p" "\<forall>q\<in>set post. q \<notin> V \<longrightarrow> elev g c \<le> elev g q"
        have "a # rest = (a # pre) @ c # post" using h(1) by simp
        moreover have "\<forall>p\<in>set (a # pre). p \<notin> V \<longrightarrow> elev g c < elev g p" using h(5,6) ge by simp
        ultimately show ?thesis using h by blast
      qed
    qed
  qed
qed

lemma trace_loop_step:
  "trace_loop g m it c p V =
     (if it < m then
        (case river_step g V c of
           None \<Rightarrow> (p, it + 1)
         | Some l \<Rightarrow> trace_loop g m (it + 1) l (p @ [l]) (insert l V))
      else (p, it))"
  by (cases c) (simp add: trace_loop.simps[of g m it] river_step_def Let_def split: option.splits)

lemma trace_loop_chain:
  "trace_loop g m it c p V = (p', n) \<Longrightarrow> p \<noteq> [] \<Longrightarrow> last p = c \<Longrightarrow> V = set p \<Longrightarrow>
     (\<exists>q. p' = p @ q \<and> int (length q) \<le> n - it) \<and> chain_from g p' (length p) \<and> it \<le> n \<and>
     (it \<le> m \<longrightarrow> n \<le> m) \<and> (river_step g (set p') (last p') = None \<or> m \<le> n)"
proof (induction g m it c p V arbitrary: p' n rule: trace_loop.induct)
  case (1 g m it cx cy p V)
  show ?case
  proof (cases "it < m")
    case False
    with "1.prems" have "p' = p" "n = it" by (simp_all add: trace_loop_step)
    then show ?thesis using False by (auto simp: chain_from_def)
  next
    case True
    show ?thesis
    proof (cases "river_step g V (cx, cy)")
      case None
      with True "1.prems" have e: "p' = p" "n = it + 1" by (simp_all add: trace_loop_step)
      then show ?thesis using True None "1.prems" by (auto simp: chain_from_def)
    next
      case (Some l)
      have nw: "\<not> water (tile_at g cx cy)" using Some by (auto simp: river_step_def split: if_splits)
      have fl: "fst (lowest_loop g V (get_neighbors g cx cy) (None, elevation (tile_at g cx cy))) = Some l"
        using Some nw by (simp add: river_step_def)
      from True Some "1.prems" have r: "trace_loop g m (it + 1) l (p @ [l]) (insert l V) = (p', n)"
        by (simp add: trace_loop_step)
      have ih: "(\<exists>q. p' = (p @ [l]) @ q \<and> int (length q) \<le> n - (it + 1)) \<and> chain_from g p' (length (p @ [l])) \<and>
          it + 1 \<le> n \<and> (it + 1 \<le> m \<longrightarrow> n \<le> m) \<and> (river_step g (set p') (last p') = None \<or> m \<le> n)"
        using "1.IH"[OF True refl nw fl r] "1.prems" by simp
      then obtain q where q: "p' = (p @ [l]) @ q" "int (length q) \<le> n - (it + 1)" by blast
      have c1: "chain_from g p' (length p)"
        unfolding chain_from_def
      proof (intro allI impI)
        fix i assume i: "length p \<le> Suc i \<and> Suc i < length p'"
        show "river_step g (set (take (Suc i) p')) (p' ! i) = Some (p' ! Suc i)"
        proof (cases "Suc i = length p")
          case True
          then have "take (Suc i) p' = p" using q by simp
          moreover have "i = length p - 1" using True by simp
          then have "p' ! i = last p" using True q "1.prems"(2)
            by (simp add: nth_append last_conv_nth)
          moreover have "p' ! Suc i = l" using True q by (simp add: nth_append)
          ultimately show ?thesis using Some "1.prems" by simp
        next
          case False
          with i have "length (p @ [l]) \<le> Suc i \<and> Suc i < length p'" by simp
          with ih show ?thesis unfolding chain_from_def by blast
        qed
      qed
      have "p' = p @ (l # q)" "int (length (l # q)) \<le> n - it" using q by simp_all
      then have "\<exists>q. p' = p @ q \<and> int (length q) \<le> n - it" by blast
      then show ?thesis using ih c1 True by auto
    qed
  qed
qed

subsection \<open>Climate\<close>

lemma shadow_tile_at:
  "0 \<le> x \<Longrightarrow> x < 50 \<Longrightarrow> 0 \<le> y \<Longrightarrow> y < 50 \<Longrightarrow> tile_at shadow_grid x y = shadow_tile x y"
  by (simp add: tile_at_def shadow_grid_def)

lemma upt_1_15: "[Suc 0..<15] = [1,2,3,4,5,6,7,8,9,10,11,12,13,14]"
  by (simp add: upt_rec)

lemma upt_1_16: "[Suc 0..<16] = [1,2,3,4,5,6,7,8,9,10,11,12,13,14,15]"
  by (simp add: upt_rec)

lemma sg: "width shadow_grid = 50" "height shadow_grid = 50" "prevailing_wind shadow_grid = ''west''"
  by (simp_all add: shadow_grid_def)

text \<open>
  C5: the climate stage computes moisture = clamp01(water_proximity + elevation * 0.3 -
  rain_shadow), but its rain shadow does not scan 15 cells upwind: the loop runs over
  \<^verbatim>\<open>range(1, check_distance)\<close> with \<^verbatim>\<open>check_distance = 15\<close>, that is over the 14
  cells at distances 1..14. On \<^const>\<open>shadow_grid\<close> the tile (15, 0) has a mountain of
  elevation 0.9 exactly 15 cells upwind and nothing high nearer: the code's rain shadow
  is 0, the specified one is (0.9 - 0.7) * 0.5 = 0.1.
\<close>

theorem rain_shadow_misses_cell_15:
  "calculate_rain_shadow shadow_grid 15 0 = 0 \<and> spec_rain_shadow shadow_grid 15 0 = 1 / 10"
  by (simp add: calculate_rain_shadow_def spec_rain_shadow_def wind_direction_def upt_1_15 upt_1_16 sg
      shadow_tile_at shadow_tile_def)

subsection \<open>River tracing: the path\<close>

lemma get_neighbors_list:
  "get_neighbors g x y =
     filter (\<lambda>(nx, ny). 0 \<le> nx \<and> nx < width g \<and> 0 \<le> ny \<and> ny < height g)
       [(x, y + 1), (x + 1, y), (x, y - 1), (x - 1, y)]"
  by (simp add: get_neighbors_def)

lemma river_step_None:
  "river_step g V c = None \<longleftrightarrow>
     water (tile_at g (fst c) (snd c)) \<or>
     (\<forall>n \<in> set (get_neighbors g (fst c) (snd c)). n \<notin> V \<longrightarrow> elev g c \<le> elev g n)"
proof (cases "water (tile_at g (fst c) (snd c))")
  case True
  then show ?thesis by (simp add: river_step_def)
next
  case False
  obtain r re where l: "lowest_loop g V (get_neighbors g (fst c) (snd c)) (None, elev g c) = (r, re)"
    by (cases "lowest_loop g V (get_neighbors g (fst c) (snd c)) (None, elev g c)")
  have rs: "river_step g V c = r" using False l by (simp add: river_step_def elev_def)
  from lowest_loop_choice[OF l] show ?thesis
  proof (elim disjE exE conjE)
    assume "\<forall>n\<in>set (get_neighbors g (fst c) (snd c)). n \<notin> V \<longrightarrow> elev g c \<le> elev g n" "r = None"
    then show ?thesis using rs False by simp
  next
    fix pre c' post
    assume h: "get_neighbors g (fst c) (snd c) = pre @ c' # post" "r = Some c'" "c' \<notin> V" "elev g c' < elev g c"
    then have "c' \<in> set (get_neighbors g (fst c) (snd c))" by simp
    with h have "\<not> (\<forall>n\<in>set (get_neighbors g (fst c) (snd c)). n \<notin> V \<longrightarrow> elev g c \<le> elev g n)"
      by (metis not_le)
    then show ?thesis using rs h False by simp
  qed
qed

lemma river_step_Some:
  assumes "river_step g V c = Some l"
  shows "\<not> water (tile_at g (fst c) (snd c)) \<and>
     (\<exists>pre post. get_neighbors g (fst c) (snd c) = pre @ l # post \<and> l \<notin> V \<and> elev g l < elev g c \<and>
        (\<forall>p \<in> set pre. p \<notin> V \<longrightarrow> elev g l < elev g p) \<and>
        (\<forall>q \<in> set post. q \<notin> V \<longrightarrow> elev g l \<le> elev g q))"
proof -
  have nw: "\<not> water (tile_at g (fst c) (snd c))" using assms by (auto simp: river_step_def split: if_splits)
  obtain r re where l: "lowest_loop g V (get_neighbors g (fst c) (snd c)) (None, elev g c) = (r, re)"
    by (cases "lowest_loop g V (get_neighbors g (fst c) (snd c)) (None, elev g c)")
  have rs: "r = Some l" using nw l assms by (simp add: river_step_def elev_def)
  from lowest_loop_choice[OF l] rs nw show ?thesis by auto
qed

lemma ramp_tile_at:
  "0 \<le> x \<Longrightarrow> x < 12 \<Longrightarrow> tile_at ramp_grid x 0 = ramp_tile x 0"
  by (simp add: tile_at_def ramp_grid_def)

lemma rg: "width ramp_grid = 12" "height ramp_grid = 1" "rivers ramp_grid = []" "river_count ramp_grid = 8"
  "rng ramp_grid = ()"
  by (simp_all add: ramp_grid_def)

lemma ramp_trace:
  "trace_loop ramp_grid 12 0 (11, 0) [(11, 0)] {(11, 0)} =
     ([(11, 0), (10, 0), (9, 0), (8, 0), (7, 0), (6, 0), (5, 0), (4, 0), (3, 0), (2, 0), (1, 0), (0, 0)], 12)"
  by (simp add: trace_loop.simps get_neighbors_def rg ramp_tile_at ramp_tile_def Let_def)

lemma trace_loop_past_cap: "\<not> it < m \<Longrightarrow> trace_loop g m it c p V = (p, it)"
  by (simp add: trace_loop_step)

lemma trace_river_path_chain:
  assumes "trace_loop g (width g * height g) 0 (sx, sy) [(sx, sy)] {(sx, sy)} = (p, n)"
  shows "p \<noteq> [] \<and> hd p = (sx, sy) \<and> chain_from g p 1 \<and> 0 \<le> n \<and> n \<le> max 0 (width g * height g) \<and>
         int (length p) \<le> n + 1 \<and> (river_step g (set p) (last p) = None \<or> width g * height g \<le> n)"
proof -
  from trace_loop_chain[OF assms] have
    h: "(\<exists>q. p = [(sx, sy)] @ q \<and> int (length q) \<le> n - 0)" "chain_from g p (length [(sx, sy)])" "0 \<le> n"
       "0 \<le> width g * height g \<longrightarrow> n \<le> width g * height g"
       "river_step g (set p) (last p) = None \<or> width g * height g \<le> n"
    by simp_all
  have "n \<le> max 0 (width g * height g)"
  proof (cases "0 \<le> width g * height g")
    case True then show ?thesis using h(4) by simp
  next
    case False
    then have "n = 0" using assms trace_loop_past_cap[of 0 "width g * height g" g "(sx, sy)"] by simp
    then show ?thesis by simp
  qed
  then show ?thesis using h by auto
qed

lemma neighbor_in_bounds: "n \<in> set (get_neighbors g x y) \<Longrightarrow> in_bounds g n"
  unfolding get_neighbors_def by (auto simp del: filter.simps simp: in_bounds_def)

lemma neighbor_adjacent:
  "n \<in> set (get_neighbors g x y) \<Longrightarrow> \<bar>fst n - x\<bar> + \<bar>snd n - y\<bar> = 1"
  unfolding get_neighbors_def by (auto simp del: filter.simps)

lemma river_step_facts:
  assumes "river_step g V c = Some l"
  shows "l \<in> set (get_neighbors g (fst c) (snd c))" "l \<notin> V" "elev g l < elev g c"
    "\<not> water (tile_at g (fst c) (snd c))"
  using river_step_Some[OF assms] by auto

lemma fresh_distinct: "(\<forall>i < length p. p ! i \<notin> set (take i p)) \<Longrightarrow> distinct p"
proof (induction p rule: rev_induct)
  case Nil
  then show ?case by simp
next
  case (snoc x xs)
  have "\<forall>i < length xs. xs ! i \<notin> set (take i xs)"
  proof (intro allI impI)
    fix i assume i: "i < length xs"
    then have "(xs @ [x]) ! i \<notin> set (take i (xs @ [x]))" using snoc.prems by simp
    then show "xs ! i \<notin> set (take i xs)" using i by (simp add: nth_append)
  qed
  then have "distinct xs" using snoc.IH by simp
  moreover have "x \<notin> set xs" using snoc.prems[rule_format, of "length xs"] by simp
  ultimately show ?case by simp
qed

lemma chain_path_facts:
  assumes c: "chain_from g p 1"
  shows "distinct p" and "four_connected p"
    and "p \<noteq> [] \<Longrightarrow> in_bounds g (hd p) \<Longrightarrow> \<forall>c \<in> set p. in_bounds g c"
proof -
  have st: "\<And>i. Suc i < length p \<Longrightarrow> river_step g (set (take (Suc i) p)) (p ! i) = Some (p ! Suc i)"
    using c by (simp add: chain_from_def)
  have "\<forall>i < length p. p ! i \<notin> set (take i p)"
  proof (intro allI impI)
    fix i assume i: "i < length p"
    show "p ! i \<notin> set (take i p)"
    proof (cases i)
      case 0 then show ?thesis by simp
    next
      case (Suc j)
      then show ?thesis using river_step_facts(2)[OF st[of j]] i by simp
    qed
  qed
  then show "distinct p" by (rule fresh_distinct)
  show "four_connected p"
    unfolding four_connected_def
    using neighbor_adjacent[OF river_step_facts(1)[OF st]] by simp
  assume ne: "p \<noteq> []" and hb: "in_bounds g (hd p)"
  have "\<forall>i < length p. in_bounds g (p ! i)"
  proof (intro allI impI)
    fix i assume i: "i < length p"
    show "in_bounds g (p ! i)"
    proof (cases i)
      case 0 then show ?thesis using hb ne by (simp add: hd_conv_nth)
    next
      case (Suc j)
      then show ?thesis using neighbor_in_bounds[OF river_step_facts(1)[OF st[of j]]] i by simp
    qed
  qed
  then show "\<forall>c \<in> set p. in_bounds g c" by (metis in_set_conv_nth)
qed

lemma trace_loop_cap:
  "trace_loop g m it c p V = (p', n) \<Longrightarrow> p \<noteq> [] \<Longrightarrow> last p = c \<Longrightarrow> V = set p \<Longrightarrow> it \<le> m \<Longrightarrow>
     river_step g (set p') (last p') = None \<or> int (length p') = int (length p) + (m - it)"
proof (induction g m it c p V arbitrary: p' n rule: trace_loop.induct)
  case (1 g m it cx cy p V)
  show ?case
  proof (cases "it < m")
    case False
    with "1.prems" have "p' = p" "it = m" by (simp_all add: trace_loop_step)
    then show ?thesis by simp
  next
    case True
    show ?thesis
    proof (cases "river_step g V (cx, cy)")
      case None
      with True "1.prems" have "p' = p" by (simp add: trace_loop_step)
      then show ?thesis using None "1.prems" by simp
    next
      case (Some l)
      have nw: "\<not> water (tile_at g cx cy)" using Some by (auto simp: river_step_def split: if_splits)
      have fl: "fst (lowest_loop g V (get_neighbors g cx cy) (None, elevation (tile_at g cx cy))) = Some l"
        using Some nw by (simp add: river_step_def)
      from True Some "1.prems" have r: "trace_loop g m (it + 1) l (p @ [l]) (insert l V) = (p', n)"
        by (simp add: trace_loop_step)
      have "river_step g (set p') (last p') = None \<or>
            int (length p') = int (length (p @ [l])) + (m - (it + 1))"
        using "1.IH"[OF True refl nw fl r] "1.prems" True by simp
      then show ?thesis by auto
    qed
  qed
qed

lemma card_in_bounds: "card {c. in_bounds g c} = nat (width g) * nat (height g)"
proof -
  have "{c. in_bounds g c} = {0..<width g} \<times> {0..<height g}"
    by (auto simp: in_bounds_def)
  then show ?thesis by (simp add: card_cartesian_product)
qed

lemma trace_river_path_breaks:
  assumes t: "trace_loop g (width g * height g) 0 (sx, sy) [(sx, sy)] {(sx, sy)} = (p, n)"
    and b: "in_bounds g (sx, sy)"
  shows "river_step g (set p) (last p) = None"
proof (rule ccontr)
  assume nn: "river_step g (set p) (last p) \<noteq> None"
  have wh: "0 < width g" "0 < height g" using b by (auto simp: in_bounds_def)
  then have m: "0 \<le> width g * height g" by simp
  from trace_loop_cap[OF t _ _ _ m] nn have len: "int (length p) = 1 + width g * height g" by simp
  from trace_river_path_chain[OF t] have c: "p \<noteq> []" "hd p = (sx, sy)" "chain_from g p 1" by auto
  have d: "distinct p" using chain_path_facts(1)[OF c(3)] .
  have "\<forall>c \<in> set p. in_bounds g c" using chain_path_facts(3)[OF c(3) c(1)] b c(2) by simp
  then have "set p \<subseteq> {c. in_bounds g c}" by auto
  moreover have "finite {c. in_bounds g c}"
  proof -
    have "{c. in_bounds g c} = {0..<width g} \<times> {0..<height g}" by (auto simp: in_bounds_def)
    then show ?thesis by simp
  qed
  ultimately have "card (set p) \<le> card {c. in_bounds g c}" by (rule card_mono[rotated])
  then have "length p \<le> nat (width g) * nat (height g)"
    using d by (simp add: distinct_card card_in_bounds)
  then have "int (length p) \<le> width g * height g" using wh
    by (metis nat_mult_distrib of_nat_le_iff nat_0_le less_imp_le m of_nat_mult le_trans order_refl int_nat_eq)
  with len show False by simp
qed

text \<open>
  C4: river path tracing. The neighbours are enumerated in the fixed order (x, y+1),
  (x+1, y), (x, y-1), (x-1, y), restricted to the grid. One iteration at the coordinate
  \<open>c\<close> with visited set \<open>V\<close> stops (\<open>None\<close>) exactly when the tile is water or no unvisited
  neighbour is strictly lower; otherwise it moves to an unvisited neighbour \<open>l\<close> strictly
  lower than \<open>c\<close> such that every unvisited neighbour enumerated before \<open>l\<close> is strictly
  higher than \<open>l\<close> and every one enumerated after it is at least as high: the
  first-enumerated minimum. The traced path starts at the source, each coordinate
  is the step taken from the one before it with the path so far as visited set, the loop
  performs at most width * height iterations, and it stops by its own break (water, or
  no lower unvisited neighbour) or, failing that, at the cap; from a source inside the
  grid the cap never cuts a trace short.
\<close>

theorem trace_river_path_steps:
  "get_neighbors g x y =
     filter (\<lambda>(nx, ny). 0 \<le> nx \<and> nx < width g \<and> 0 \<le> ny \<and> ny < height g)
       [(x, y + 1), (x + 1, y), (x, y - 1), (x - 1, y)]
   \<and> (river_step g V c = None \<longleftrightarrow>
        water (tile_at g (fst c) (snd c)) \<or>
        (\<forall>n \<in> set (get_neighbors g (fst c) (snd c)). n \<notin> V \<longrightarrow> elev g c \<le> elev g n))
   \<and> (river_step g V c = Some l \<longrightarrow>
        \<not> water (tile_at g (fst c) (snd c)) \<and>
        (\<exists>pre post. get_neighbors g (fst c) (snd c) = pre @ l # post \<and> l \<notin> V \<and>
           elev g l < elev g c \<and>
           (\<forall>a \<in> set pre. a \<notin> V \<longrightarrow> elev g l < elev g a) \<and>
           (\<forall>b \<in> set post. b \<notin> V \<longrightarrow> elev g l \<le> elev g b)))
   \<and> (trace_loop g (width g * height g) 0 (sx, sy) [(sx, sy)] {(sx, sy)} = (p, n) \<longrightarrow>
        trace_river_path g sx sy = p \<and> p \<noteq> [] \<and> hd p = (sx, sy) \<and>
        (\<forall>i. Suc i < length p \<longrightarrow>
           river_step g (set (take (Suc i) p)) (p ! i) = Some (p ! Suc i)) \<and>
        0 \<le> n \<and> n \<le> max 0 (width g * height g) \<and>
        (river_step g (set p) (last p) = None \<or> width g * height g \<le> n) \<and>
        (in_bounds g (sx, sy) \<longrightarrow> river_step g (set p) (last p) = None))"
proof (intro conjI impI)
  show "get_neighbors g x y =
     filter (\<lambda>(nx, ny). 0 \<le> nx \<and> nx < width g \<and> 0 \<le> ny \<and> ny < height g)
       [(x, y + 1), (x + 1, y), (x, y - 1), (x - 1, y)]"
    by (rule get_neighbors_list)
  show "river_step g V c = None \<longleftrightarrow>
        water (tile_at g (fst c) (snd c)) \<or>
        (\<forall>n \<in> set (get_neighbors g (fst c) (snd c)). n \<notin> V \<longrightarrow> elev g c \<le> elev g n)"
    by (rule river_step_None)
next
  assume "river_step g V c = Some l"
  from river_step_Some[OF this]
  show "\<not> water (tile_at g (fst c) (snd c))"
    and "\<exists>pre post. get_neighbors g (fst c) (snd c) = pre @ l # post \<and> l \<notin> V \<and>
           elev g l < elev g c \<and>
           (\<forall>a \<in> set pre. a \<notin> V \<longrightarrow> elev g l < elev g a) \<and>
           (\<forall>b \<in> set post. b \<notin> V \<longrightarrow> elev g l \<le> elev g b)"
    by auto
next
  assume t: "trace_loop g (width g * height g) 0 (sx, sy) [(sx, sy)] {(sx, sy)} = (p, n)"
  from trace_river_path_chain[OF t]
  have h: "p \<noteq> []" "hd p = (sx, sy)" "chain_from g p 1" "0 \<le> n" "n \<le> max 0 (width g * height g)"
    "river_step g (set p) (last p) = None \<or> width g * height g \<le> n"
    by auto
  show "trace_river_path g sx sy = p" using t by (simp add: trace_river_path_def)
  show "p \<noteq> []" "hd p = (sx, sy)" "0 \<le> n" "n \<le> max 0 (width g * height g)"
    "river_step g (set p) (last p) = None \<or> width g * height g \<le> n"
    using h by auto
  show "\<forall>i. Suc i < length p \<longrightarrow>
           river_step g (set (take (Suc i) p)) (p ! i) = Some (p ! Suc i)"
    using h(3) by (simp add: chain_from_def)
  assume "in_bounds g (sx, sy)"
  then show "river_step g (set p) (last p) = None"
    using trace_river_path_breaks[OF t] by simp
qed

theorem trace_river_path_steps_witness:
  "trace_river_path ramp_grid 11 0 =
     [(11, 0), (10, 0), (9, 0), (8, 0), (7, 0), (6, 0), (5, 0), (4, 0), (3, 0), (2, 0), (1, 0), (0, 0)]
   \<and> river_step ramp_grid {(11, 0)} (11, 0) = Some (10, 0)
   \<and> river_step ramp_grid
        (set [(11, 0), (10, 0), (9, 0), (8, 0), (7, 0), (6, 0), (5, 0), (4, 0), (3, 0), (2, 0), (1, 0), (0, 0)])
        (0, 0) = None"
proof -
  let ?p = "[(11, 0), (10, 0), (9, 0), (8, 0), (7, 0), (6, 0), (5, 0), (4, 0), (3, 0), (2, 0), (1, 0), (0, 0)] :: (int \<times> int) list"
  have t: "trace_loop ramp_grid (width ramp_grid * height ramp_grid) 0 (11, 0) [(11, 0)] {(11, 0)} = (?p, 12)"
    using ramp_trace by (simp add: rg)
  have b: "in_bounds ramp_grid (11, 0)" by (simp add: in_bounds_def rg)
  from trace_river_path_steps[of ramp_grid 0 0 "{}" "(0, 0)" "(0, 0)" 11 0 ?p 12] t b
  have h: "trace_river_path ramp_grid 11 0 = ?p"
    "\<forall>i. Suc i < length ?p \<longrightarrow> river_step ramp_grid (set (take (Suc i) ?p)) (?p ! i) = Some (?p ! Suc i)"
    "river_step ramp_grid (set ?p) (last ?p) = None"
    by blast+
  from h(2)[rule_format, of 0] have "river_step ramp_grid {(11, 0)} (11, 0) = Some (10, 0)" by simp
  then show ?thesis using h(1,3) by simp
qed

subsection \<open>Writing tiles: what a stage leaves unchanged\<close>

lemma set_tile_nth:
  "set_tile ts x y t ! j ! i =
     (if j = nat y \<and> i = nat x \<and> nat y < length ts \<and> nat x < length (ts ! nat y) then t
      else ts ! j ! i)"
proof (cases "nat y < length ts")
  case False
  then have "ts[nat y := (ts ! nat y)[nat x := t]] = ts" by (simp add: list_update_beyond)
  then show ?thesis using False by (simp add: set_tile_def)
next
  case True
  show ?thesis
  proof (cases "j = nat y")
    case False
    then show ?thesis by (simp add: set_tile_def)
  next
    case j: True
    show ?thesis
    proof (cases "nat x < length (ts ! nat y)")
      case False
      then have "(ts ! nat y)[nat x := t] = ts ! nat y" by (simp add: list_update_beyond)
      then show ?thesis using False True j by (simp add: set_tile_def)
    next
      case x: True
      then show ?thesis using True j by (cases "i = nat x") (simp_all add: set_tile_def)
    qed
  qed
qed

lemma set_tile_shape: "map length (set_tile ts x y t) = map length ts"
proof (cases "nat y < length ts")
  case False
  then have "ts[nat y := (ts ! nat y)[nat x := t]] = ts" by (simp add: list_update_beyond)
  then show ?thesis by (simp add: set_tile_def)
next
  case True
  have "map length (set_tile ts x y t) = (map length ts)[nat y := length (ts ! nat y)]"
    by (simp add: set_tile_def map_update)
  also have "\<dots> = map length ts"
    using True by (metis list_update_id nth_map)
  finally show ?thesis .
qed

lemma set_tile_length: "length (set_tile ts x y t) = length ts"
  by (simp add: set_tile_def)

lemma same_terrain_refl: "same_terrain g g"
  by (simp add: same_terrain_def)

lemma same_terrain_trans: "same_terrain a b \<Longrightarrow> same_terrain b c \<Longrightarrow> same_terrain a c"
  by (simp add: same_terrain_def)

lemma same_terrain_tile:
  "same_terrain g g' \<Longrightarrow> elevation (tile_at g' x y) = elevation (tile_at g x y)"
  "same_terrain g g' \<Longrightarrow> water (tile_at g' x y) = water (tile_at g x y)"
  by (simp_all add: same_terrain_def tile_at_def)

lemma same_terrain_neighbors: "same_terrain g g' \<Longrightarrow> get_neighbors g' x y = get_neighbors g x y"
  by (simp add: same_terrain_def get_neighbors_def)

lemma same_terrain_lowest:
  "same_terrain g g' \<Longrightarrow> lowest_loop g' V ns st = lowest_loop g V ns st"
proof (induction ns arbitrary: st)
  case Nil
  then show ?case by simp
next
  case (Cons a ns)
  obtain nx ny where a: "a = (nx, ny)" by (cases a)
  obtain l le where st: "st = (l, le)" by (cases st)
  show ?case using Cons by (simp add: a st same_terrain_tile Let_def)
qed

lemma same_terrain_step: "same_terrain g g' \<Longrightarrow> river_step g' V c = river_step g V c"
  by (simp add: river_step_def same_terrain_tile same_terrain_neighbors same_terrain_lowest)

lemma same_terrain_trace_loop:
  "same_terrain g g' \<Longrightarrow> trace_loop g' m it c p V = trace_loop g m it c p V"
proof (induction g m it c p V rule: trace_loop.induct)
  case (1 g m it cx cy p V)
  show ?case
  proof (cases "it < m")
    case False
    then show ?thesis by (simp add: trace_loop_step)
  next
    case True
    show ?thesis
    proof (cases "river_step g V (cx, cy)")
      case None
      then show ?thesis using True "1.prems"
        by (simp add: trace_loop_step[of g'] trace_loop_step[of g] same_terrain_step)
    next
      case (Some l)
      have nw: "\<not> water (tile_at g cx cy)" using Some by (auto simp: river_step_def split: if_splits)
      have fl: "fst (lowest_loop g V (get_neighbors g cx cy) (None, elevation (tile_at g cx cy))) = Some l"
        using Some nw by (simp add: river_step_def)
      have "trace_loop g' m (it + 1) l (p @ [l]) (insert l V) = trace_loop g m (it + 1) l (p @ [l]) (insert l V)"
        using "1.IH"[OF True refl nw fl "1.prems"] .
      then show ?thesis using True Some "1.prems"
        by (simp add: trace_loop_step[of g'] trace_loop_step[of g _ it] same_terrain_step)
    qed
  qed
qed

lemma same_terrain_trace:
  "same_terrain g g' \<Longrightarrow> trace_river_path g' sx sy = trace_river_path g sx sy"
  by (simp add: trace_river_path_def same_terrain_trace_loop) (simp add: same_terrain_def)

lemma set_tile_row_length: "length (set_tile ts x y t ! j) = length (ts ! j)"
proof (cases "nat y < length ts")
  case False
  then have "ts[nat y := (ts ! nat y)[nat x := t]] = ts" by (simp add: list_update_beyond)
  then show ?thesis by (simp add: set_tile_def)
next
  case True
  then show ?thesis by (cases "j = nat y") (simp_all add: set_tile_def)
qed

lemma mark_path_shape: "map length (mark_path ts p) = map length ts"
proof (induction p arbitrary: ts)
  case Nil
  then show ?case by simp
next
  case (Cons c p)
  obtain x y where c: "c = (x, y)" by (cases c)
  show ?case using Cons[of "set_tile ts x y ((ts ! nat y ! nat x)\<lparr>river := True\<rparr>)"]
    by (simp add: c set_tile_shape)
qed

lemma mark_path_row_length: "length (mark_path ts p ! j) = length (ts ! j)"
proof (induction p arbitrary: ts)
  case Nil
  then show ?case by simp
next
  case (Cons c p)
  obtain x y where c: "c = (x, y)" by (cases c)
  show ?case using Cons[of "set_tile ts x y ((ts ! nat y ! nat x)\<lparr>river := True\<rparr>)"]
    by (simp add: c set_tile_row_length)
qed

lemma mark_path_length: "length (mark_path ts p) = length ts"
  using mark_path_shape[of ts p] by (metis length_map)

lemma mark_path_fields:
  "elevation (mark_path ts p ! j ! i) = elevation (ts ! j ! i) \<and>
   water (mark_path ts p ! j ! i) = water (ts ! j ! i)"
proof (induction p arbitrary: ts)
  case Nil
  then show ?case by simp
next
  case (Cons c p)
  obtain x y where c: "c = (x, y)" by (cases c)
  show ?case using Cons[of "set_tile ts x y ((ts ! nat y ! nat x)\<lparr>river := True\<rparr>)"]
    by (simp add: c set_tile_nth)
qed

lemma mark_path_river:
  "river (mark_path ts p ! j ! i) =
     (river (ts ! j ! i) \<or>
      (\<exists>c \<in> set p. j = nat (snd c) \<and> i = nat (fst c) \<and> j < length ts \<and> i < length (ts ! j)))"
proof (induction p arbitrary: ts)
  case Nil
  then show ?case by simp
next
  case (Cons c p)
  obtain x y where c: "c = (x, y)" by (cases c)
  let ?ts = "set_tile ts x y ((ts ! nat y ! nat x)\<lparr>river := True\<rparr>)"
  have "river (mark_path ts (c # p) ! j ! i) = river (mark_path ?ts p ! j ! i)" by (simp add: c)
  also have "\<dots> = (river (?ts ! j ! i) \<or>
      (\<exists>c \<in> set p. j = nat (snd c) \<and> i = nat (fst c) \<and> j < length ?ts \<and> i < length (?ts ! j)))"
    by (rule Cons)
  also have "\<dots> = (river (ts ! j ! i) \<or>
      (\<exists>c \<in> set (c # p). j = nat (snd c) \<and> i = nat (fst c) \<and> j < length ts \<and> i < length (ts ! j)))"
    by (auto simp: set_tile_nth set_tile_length set_tile_row_length c)
  finally show ?case .
qed

lemma mark_path_append: "mark_path ts (p @ q) = mark_path (mark_path ts p) q"
  by (induction p arbitrary: ts) auto

lemma same_terrain_mark:
  "same_terrain g (g\<lparr>rivers := rs, tiles := mark_path (tiles g) p\<rparr>)"
  by (simp add: same_terrain_def mark_path_shape mark_path_fields)

lemma same_terrain_kept: "same_terrain g g' \<Longrightarrow> kept_sources g' sel = kept_sources g sel"
  by (simp add: kept_sources_def same_terrain_trace)

lemma same_terrain_make: "same_terrain g g' \<Longrightarrow> make_river g' s = make_river g s"
  by (simp add: make_river_def same_terrain_trace)

lemma rivers_loop_result:
  "rivers_loop g sel =
     g\<lparr>rivers := rivers g @ map (make_river g) (kept_sources g sel),
       tiles := mark_path (tiles g) (concat (map (\<lambda>s. path (make_river g s)) (kept_sources g sel)))\<rparr>"
proof (induction sel arbitrary: g)
  case Nil
  then show ?case by (simp add: kept_sources_def)
next
  case (Cons s rest)
  obtain idx sx sy where s: "s = (idx, (sx, sy))" by (cases s) auto
  let ?p = "trace_river_path g sx sy"
  show ?case
  proof (cases "length ?p > 10")
    case False
    then show ?thesis using Cons[of g] by (simp add: s kept_sources_def Let_def)
  next
    case True
    let ?g = "g\<lparr>rivers := rivers g @ [make_river g s], tiles := mark_path (tiles g) ?p\<rparr>"
    have st: "same_terrain g ?g" by (rule same_terrain_mark)
    have "rivers_loop g (s # rest) = rivers_loop ?g rest"
      using True by (simp add: s make_river_def Let_def)
    also have "\<dots> = ?g\<lparr>rivers := rivers ?g @ map (make_river ?g) (kept_sources ?g rest),
       tiles := mark_path (tiles ?g) (concat (map (\<lambda>s. path (make_river ?g s)) (kept_sources ?g rest)))\<rparr>"
      by (rule Cons)
    also have "\<dots> = g\<lparr>rivers := rivers g @ map (make_river g) (kept_sources g (s # rest)),
       tiles := mark_path (tiles g) (concat (map (\<lambda>s. path (make_river g s)) (kept_sources g (s # rest))))\<rparr>"
    proof -
      have k: "kept_sources g (s # rest) = s # kept_sources g rest"
        using True by (simp add: kept_sources_def s)
      have m: "(\<lambda>s. path (make_river ?g s)) = (\<lambda>s. path (make_river g s))"
        "make_river ?g = make_river g"
        using same_terrain_make[OF st] by auto
      have p: "path (make_river g s) = ?p" by (simp add: make_river_def s)
      show ?thesis
        unfolding same_terrain_kept[OF st] m k
        by (simp add: mark_path_append p)
    qed
    finally show ?thesis .
  qed
qed

subsection \<open>The hydrology stage\<close>

lemma sample_ok_fixed: "sample_ok fixed_random"
proof -
  have "mset (take k xs) \<subseteq># mset xs" for k and xs :: "(int \<times> int) list"
    by (metis append_take_drop_id mset_append mset_subset_eq_add_left)
  then show ?thesis by (simp add: sample_ok_def fixed_random_def)
qed

lemma same_terrain_rng: "same_terrain g (g\<lparr>rng := r\<rparr>)"
  by (simp add: same_terrain_def)

lemma generate_rivers_result:
  assumes ok: "sample_ok R" and nn: "0 \<le> river_count g"
  shows "\<exists>sel r'. rng_sample R (rng g) (river_sources g)
                     (nat (min (int (length (river_sources g))) (river_count g))) = (sel, r') \<and>
           length sel = nat (min (int (length (river_sources g))) (river_count g)) \<and>
           mset sel \<subseteq># mset (river_sources g) \<and>
           generate_rivers R g =
             Inr (g\<lparr>rng := r',
                    rivers := rivers g @ map (make_river g) (kept_sources g (List.enumerate 0 sel)),
                    tiles := mark_path (tiles g)
                      (concat (map (\<lambda>s. path (make_river g s)) (kept_sources g (List.enumerate 0 sel))))\<rparr>)"
proof -
  let ?k = "nat (min (int (length (river_sources g))) (river_count g))"
  obtain sel r' where s: "rng_sample R (rng g) (river_sources g) ?k = (sel, r')"
    by (cases "rng_sample R (rng g) (river_sources g) ?k")
  have kl: "?k \<le> length (river_sources g)" by simp
  from ok[unfolded sample_ok_def, rule_format, OF kl, of "rng g"] s
  have l: "length sel = ?k" "mset sel \<subseteq># mset (river_sources g)" by simp_all
  have a: "(if int (length (river_sources g)) < river_count g then int (length (river_sources g))
            else river_count g) = min (int (length (river_sources g))) (river_count g)"
    by (simp add: min_def)
  have st: "same_terrain g (g\<lparr>rng := r'\<rparr>)" by (rule same_terrain_rng)
  have "generate_rivers R g = Inr (rivers_loop (g\<lparr>rng := r'\<rparr>) (List.enumerate 0 sel))"
    using nn s unfolding generate_rivers_def Let_def a by simp
  also have "rivers_loop (g\<lparr>rng := r'\<rparr>) (List.enumerate 0 sel) =
      g\<lparr>rng := r',
        rivers := rivers g @ map (make_river g) (kept_sources g (List.enumerate 0 sel)),
        tiles := mark_path (tiles g)
          (concat (map (\<lambda>s. path (make_river g s)) (kept_sources g (List.enumerate 0 sel))))\<rparr>"
  proof -
    have m: "(\<lambda>s. path (make_river (g\<lparr>rng := r'\<rparr>) s)) = (\<lambda>s. path (make_river g s))"
        "make_river (g\<lparr>rng := r'\<rparr>) = make_river g"
      using same_terrain_make[OF st] by auto
    show ?thesis
      unfolding rivers_loop_result[of "g\<lparr>rng := r'\<rparr>"] same_terrain_kept[OF st] m by simp
  qed
  finally show ?thesis using s l by blast
qed

lemma generate_rivers_error:
  "river_count g < 0 \<Longrightarrow>
     generate_rivers R g = Inl (ValueError ''Sample larger than population or is negative'')"
  by (simp add: generate_rivers_def Let_def)

lemma ramp_sources: "river_sources ramp_grid = [(11, 0)]"
  by (simp add: river_sources_def grid_coords_def rg upt_rec ramp_tile_at ramp_tile_def Let_def)

lemma ramp_path:
  "trace_river_path ramp_grid 11 0 =
     [(11, 0), (10, 0), (9, 0), (8, 0), (7, 0), (6, 0), (5, 0), (4, 0), (3, 0), (2, 0), (1, 0), (0, 0)]"
  using ramp_trace by (simp add: trace_river_path_def rg)

lemma format_03d_0: "format_03d 0 = ''000''"
  by code_simp



subsection \<open>The elevation stage and the classifier\<close>

lemma elevation_tile_fresh:
  assumes "elevation_tile R g r x y = Inr (t, r')"
  shows "fresh_tile t \<and> tile_x t = x \<and> tile_y t = y"
proof -
  obtain e0 a f mv where o: "octave_loop (noise g) (scale g) (persistence g) (lacunarity g) x y
                 (nat (octaves g)) (0, 1, 1, 0) = (e0, a, f, mv)"
    by (cases "octave_loop (noise g) (scale g) (persistence g) (lacunarity g) x y
                 (nat (octaves g)) (0, 1, 1, 0)") auto
  show ?thesis
    using assms unfolding elevation_tile_def o Let_def
    by (auto simp: fresh_tile_def split: if_splits prod.splits)
qed

lemma elevation_row_fresh:
  "elevation_row R g y xs r = Inr (ts, r') \<Longrightarrow>
     length ts = length xs \<and> (\<forall>t \<in> set ts. fresh_tile t)"
proof (induction xs arbitrary: r ts)
  case Nil
  then show ?case by simp
next
  case (Cons x xs)
  from Cons.prems obtain t r1 ts' where
    h: "elevation_tile R g r x y = Inr (t, r1)" "elevation_row R g y xs r1 = Inr (ts', r')" "ts = t # ts'"
    by (auto split: sum.splits prod.splits)
  from Cons.IH[OF h(2)] elevation_tile_fresh[OF h(1)] h(3) show ?case by simp
qed

lemma elevation_rows_fresh:
  "elevation_rows R g ys r = Inr (rows, r') \<Longrightarrow>
     length rows = length ys \<and>
     (\<forall>row \<in> set rows. length row = nat (width g) \<and> (\<forall>t \<in> set row. fresh_tile t))"
proof (induction ys arbitrary: r rows)
  case Nil
  then show ?case by simp
next
  case (Cons y ys)
  from Cons.prems obtain row r1 rows' where
    h: "elevation_row R g y (map int [0..<nat (width g)]) r = Inr (row, r1)"
       "elevation_rows R g ys r1 = Inr (rows', r')" "rows = row # rows'"
    by (auto split: sum.splits prod.splits)
  from Cons.IH[OF h(2)] elevation_row_fresh[OF h(1)] h(3) show ?case by simp
qed

lemma generate_elevation_result:
  assumes "generate_elevation R g = Inr g1"
  shows "wf_grid g1" and "\<exists>ts r. g1 = g\<lparr>tiles := ts, rng := r\<rparr>"
    and "\<forall>row \<in> set (tiles g1). \<forall>t \<in> set row. fresh_tile t"
proof -
  from assms obtain rows r' where
    h: "elevation_rows R g (map int [0..<nat (height g)]) (rng g) = Inr (rows, r')"
       "g1 = g\<lparr>tiles := rows, rng := r'\<rparr>"
    by (auto simp: generate_elevation_def split: sum.splits prod.splits)
  from elevation_rows_fresh[OF h(1)] h(2)
  show "wf_grid g1" "\<forall>row \<in> set (tiles g1). \<forall>t \<in> set row. fresh_tile t"
    by (simp_all add: wf_grid_def)
  show "\<exists>ts r. g1 = g\<lparr>tiles := ts, rng := r\<rparr>" using h(2) by blast
qed

lemma octave_loop_max_value:
  "snd (snd (snd (octave_loop N sc pe la x y n (e, a, f, m)))) = m + a * (\<Sum>i<n. pe ^ i)"
proof (induction n arbitrary: e a f m)
  case 0
  then show ?case by simp
next
  case (Suc n)
  have "(\<Sum>i<Suc n. pe ^ i) = 1 + pe * (\<Sum>i<n. pe ^ i)"
    by (simp add: sum.lessThan_Suc_shift sum_distrib_left del: sum.lessThan_Suc)
  then show ?case using Suc[of "e + noise2d N (real_of_int x / sc * f) (real_of_int y / sc * f) * a" "a * pe" "f * la" "m + a"]
    by (simp add: Let_def algebra_simps del: sum.lessThan_Suc)
qed

lemma elevation_tile_succeeds:
  assumes "scale g \<noteq> 0" and "(\<Sum>i<nat (octaves g). persistence g ^ i) \<noteq> 0"
  shows "\<exists>t r'. elevation_tile R g r x y = Inr (t, r')"
proof -
  obtain e0 a f mv where o: "octave_loop (noise g) (scale g) (persistence g) (lacunarity g) x y
                 (nat (octaves g)) (0, 1, 1, 0) = (e0, a, f, mv)"
    by (cases "octave_loop (noise g) (scale g) (persistence g) (lacunarity g) x y
                 (nat (octaves g)) (0, 1, 1, 0)") auto
  have "mv = 0 + 1 * (\<Sum>i<nat (octaves g). persistence g ^ i)"
    using octave_loop_max_value[of "noise g" "scale g" "persistence g" "lacunarity g" x y "nat (octaves g)" 0 1 1 0]
    unfolding o by simp
  then have "mv \<noteq> 0" using assms(2) by simp
  then show ?thesis using assms(1) unfolding elevation_tile_def o Let_def
    by (auto split: prod.splits)
qed

lemma elevation_row_succeeds:
  assumes "scale g \<noteq> 0" and "(\<Sum>i<nat (octaves g). persistence g ^ i) \<noteq> 0"
  shows "\<exists>ts r'. elevation_row R g y xs r = Inr (ts, r')"
proof (induction xs arbitrary: r)
  case Nil
  then show ?case by simp
next
  case (Cons x xs)
  from elevation_tile_succeeds[OF assms, of R r x y] obtain t r1 where
    t: "elevation_tile R g r x y = Inr (t, r1)" by blast
  from Cons[of r1] obtain ts r2 where "elevation_row R g y xs r1 = Inr (ts, r2)" by blast
  then show ?case using t by simp
qed

lemma elevation_rows_succeeds:
  assumes "scale g \<noteq> 0" and "(\<Sum>i<nat (octaves g). persistence g ^ i) \<noteq> 0"
  shows "\<exists>rows r'. elevation_rows R g ys r = Inr (rows, r')"
proof (induction ys arbitrary: r)
  case Nil
  then show ?case by simp
next
  case (Cons y ys)
  from elevation_row_succeeds[OF assms, of R y _ r] obtain row r1 where
    t: "elevation_row R g y (map int [0..<nat (width g)]) r = Inr (row, r1)" by blast
  from Cons[of r1] obtain rows r2 where "elevation_rows R g ys r1 = Inr (rows, r2)" by blast
  then show ?case using t by simp
qed

lemma generate_elevation_succeeds:
  assumes "scale g \<noteq> 0" and "(\<Sum>i<nat (octaves g). persistence g ^ i) \<noteq> 0"
  shows "\<exists>g1. generate_elevation R g = Inr g1"
  using elevation_rows_succeeds[OF assms, of R "map int [0..<nat (height g)]" "rng g"]
  by (auto simp: generate_elevation_def)

lemma elevation_tile_ignores_tiles:
  "elevation_tile R (g\<lparr>tiles := ts\<rparr>) r x y = elevation_tile R g r x y"
  by (simp add: elevation_tile_def apply_mode_shaping_def Let_def split: prod.splits)

lemma elevation_row_ignores_tiles:
  "elevation_row R (g\<lparr>tiles := ts\<rparr>) y xs r = elevation_row R g y xs r"
  by (induction xs arbitrary: r) (simp_all add: elevation_tile_ignores_tiles split: sum.splits prod.splits)

lemma elevation_rows_ignores_tiles:
  "elevation_rows R (g\<lparr>tiles := ts\<rparr>) ys r = elevation_rows R g ys r"
  by (induction ys arbitrary: r) (simp_all add: elevation_row_ignores_tiles split: sum.splits prod.splits)

lemma generate_elevation_ignores_tiles:
  "generate_elevation R (g\<lparr>tiles := ts\<rparr>) = generate_elevation R g"
  by (simp add: generate_elevation_def elevation_rows_ignores_tiles split: sum.splits prod.splits)

lemma determine_biome_loop_total:
  "set bs \<subseteq> fst ` set rules \<Longrightarrow> \<exists>b. determine_biome_loop bs e m rules = Inr b"
proof (induction bs)
  case Nil
  then show ?case by simp
next
  case (Cons b bs)
  then have "b \<in> fst ` set rules" by simp
  then obtain rule where "map_of rules b = Some rule"
    by (metis domD dom_map_of_conv_image_fst)
  then show ?case using Cons by (auto simp: Let_def)
qed

lemma determine_biome_total: "\<exists>b. determine_biome e m load_biome_rules = Inr b"
  unfolding determine_biome_def
  by (rule determine_biome_loop_total) (simp add: priority_def load_biome_rules_def)

subsection \<open>The climate and biome stages write moisture and biome only\<close>

lemma same_fields_refl: "same_fields g g"
proof -
  have "g = g\<lparr>tiles := tiles g\<rparr>" by simp
  then have "\<exists>ts. g = g\<lparr>tiles := ts\<rparr>" by (rule exI)
  then show ?thesis by (simp add: same_fields_def)
qed

lemma same_fields_trans: "same_fields a b \<Longrightarrow> same_fields b c \<Longrightarrow> same_fields a c"
proof -
  assume ab: "same_fields a b" and bc: "same_fields b c"
  from ab obtain t1 where 1: "b = a\<lparr>tiles := t1\<rparr>" by (auto simp: same_fields_def)
  from bc obtain t2 where 2: "c = b\<lparr>tiles := t2\<rparr>" by (auto simp: same_fields_def)
  have "c = a\<lparr>tiles := t2\<rparr>" unfolding 2 1 by simp
  then have "\<exists>ts. c = a\<lparr>tiles := ts\<rparr>" by (rule exI)
  moreover have "map length (tiles c) = map length (tiles a)"
    using ab bc by (simp add: same_fields_def)
  moreover have "\<forall>j i. elevation (tiles c ! j ! i) = elevation (tiles a ! j ! i) \<and>
             water (tiles c ! j ! i) = water (tiles a ! j ! i) \<and>
             river (tiles c ! j ! i) = river (tiles a ! j ! i)"
    using ab bc by (simp add: same_fields_def)
  ultimately show ?thesis unfolding same_fields_def by blast
qed

lemma tiles_update_ex: "\<exists>ts. g\<lparr>tiles := t\<rparr> = g\<lparr>tiles := ts\<rparr>"
  by blast

lemma same_fields_moisture:
  "same_fields g (g\<lparr>tiles := set_tile (tiles g) x y ((tile_at g x y)\<lparr>moisture := v\<rparr>)\<rparr>)"
  by (simp add: same_fields_def set_tile_shape set_tile_nth tile_at_def tiles_update_ex)

lemma same_fields_biome:
  "same_fields g (g\<lparr>tiles := set_tile (tiles g) x y ((tile_at g x y)\<lparr>biome := v\<rparr>)\<rparr>)"
  by (simp add: same_fields_def set_tile_shape set_tile_nth tile_at_def tiles_update_ex)

lemma moisture_step_fields: "same_fields g (moisture_step g c)"
  by (cases c) (simp add: moisture_step_def Let_def same_fields_moisture)

lemma foldl_moisture_fields: "same_fields g (foldl moisture_step g cs)"
proof (induction cs arbitrary: g)
  case Nil
  then show ?case by (simp add: same_fields_refl)
next
  case (Cons c cs)
  show ?case using same_fields_trans[OF moisture_step_fields[of g c] Cons[of "moisture_step g c"]]
    by simp
qed

lemma calculate_moisture_fields: "same_fields g (calculate_moisture g)"
  by (simp add: calculate_moisture_def foldl_moisture_fields)

lemma assign_biomes_loop_fields:
  "\<exists>g'. assign_biomes_loop load_biome_rules g cs = Inr g' \<and> same_fields g g'"
proof (induction cs arbitrary: g)
  case Nil
  then show ?case by (simp add: same_fields_refl)
next
  case (Cons c cs)
  obtain x y where c: "c = (x, y)" by (cases c)
  obtain b where b: "determine_biome (elevation (tile_at g x y)) (moisture (tile_at g x y)) load_biome_rules = Inr b"
    using determine_biome_total by blast
  let ?g = "g\<lparr>tiles := set_tile (tiles g) x y ((tile_at g x y)\<lparr>biome := b\<rparr>)\<rparr>"
  from Cons[of ?g] obtain g' where g': "assign_biomes_loop load_biome_rules ?g cs = Inr g'" "same_fields ?g g'"
    by blast
  have "assign_biomes_loop load_biome_rules g (c # cs) = Inr g'"
    using g'(1) b by (simp add: c Let_def)
  moreover have "same_fields g g'" using same_fields_trans[OF same_fields_biome g'(2)] .
  ultimately show ?case by blast
qed

lemma assign_biomes_fields: "\<exists>g'. assign_biomes g = Inr g' \<and> same_fields g g'"
  by (simp add: assign_biomes_def assign_biomes_loop_fields)

lemma wf_grid_shape:
  "wf_grid g \<longleftrightarrow> map length (tiles g) = replicate (nat (height g)) (nat (width g))"
proof
  assume "wf_grid g"
  then show "map length (tiles g) = replicate (nat (height g)) (nat (width g))"
    by (simp add: wf_grid_def map_replicate_const cong: map_cong)
next
  assume a: "map length (tiles g) = replicate (nat (height g)) (nat (width g))"
  then have "length (tiles g) = nat (height g)" by (metis length_map length_replicate)
  moreover have "\<forall>row \<in> set (tiles g). length row = nat (width g)"
  proof
    fix row assume "row \<in> set (tiles g)"
    then have "length row \<in> set (map length (tiles g))" by simp
    then show "length row = nat (width g)" unfolding a by simp
  qed
  ultimately show "wf_grid g" by (simp add: wf_grid_def)
qed

lemma same_fields_facts:
  assumes "same_fields g g'"
  shows "width g' = width g" "height g' = height g" "rivers g' = rivers g" "river_count g' = river_count g"
    "same_terrain g g'" "wf_grid g \<Longrightarrow> wf_grid g'"
    "river (tile_at g' x y) = river (tile_at g x y)"
    "elevation (tile_at g' x y) = elevation (tile_at g x y)"
    "water (tile_at g' x y) = water (tile_at g x y)"
proof -
  obtain ts where e: "g' = g\<lparr>tiles := ts\<rparr>" using assms by (auto simp: same_fields_def)
  show "width g' = width g" "height g' = height g" "rivers g' = rivers g" "river_count g' = river_count g"
    by (simp_all add: e)
  then show "same_terrain g g'" using assms by (simp add: same_terrain_def same_fields_def)
  show "river (tile_at g' x y) = river (tile_at g x y)"
    "elevation (tile_at g' x y) = elevation (tile_at g x y)"
    "water (tile_at g' x y) = water (tile_at g x y)"
    using assms by (simp_all add: same_fields_def tile_at_def)
  assume "wf_grid g"
  moreover have "map length (tiles g') = map length (tiles g)" using assms by (simp add: same_fields_def)
  ultimately show "wf_grid g'"
    using \<open>width g' = width g\<close> \<open>height g' = height g\<close> wf_grid_shape[of g] wf_grid_shape[of g']
    by simp
qed

subsection \<open>The pipeline\<close>

lemma init_default:
  "TerrainGenerator_init fixed_random 50 50 1 ''continent'' 5 0.5 2 100 8 ''west'' = Inr default_generator"
  by (simp add: TerrainGenerator_init_def default_generator_def)

lemma generate_stages:
  "generate R g = Inr (out, g') \<longleftrightarrow>
     (\<exists>g1 g2. generate_elevation R g = Inr g1 \<and> generate_rivers R g1 = Inr g2 \<and>
        assign_biomes (calculate_moisture g2) = Inr g' \<and> out = to_dict g' (identify_features g'))"
  by (auto simp: generate_def Let_def split: sum.splits)

lemma generate_rivers_terrain:
  assumes "generate_rivers R g = Inr g'"
  shows "same_terrain g g'"
proof -
  from assms obtain sel r' where
    h: "g' = rivers_loop (g\<lparr>rng := r'\<rparr>) (List.enumerate 0 sel)"
    by (auto simp: generate_rivers_def Let_def split: if_splits prod.splits)
  have "same_terrain (g\<lparr>rng := r'\<rparr>) g'"
    unfolding h rivers_loop_result[of "g\<lparr>rng := r'\<rparr>"] by (rule same_terrain_mark)
  with same_terrain_rng[of g r'] show ?thesis by (rule same_terrain_trans)
qed

lemma same_terrain_wf: "same_terrain g g' \<Longrightarrow> wf_grid g \<Longrightarrow> wf_grid g'"
  by (simp add: wf_grid_shape same_terrain_def)

lemma wf_grid_nth:
  assumes "wf_grid g" "in_bounds g (x, y)"
  shows "tile_at g x y \<in> set (tiles g ! nat y)" "tiles g ! nat y \<in> set (tiles g)"
    "nat y < length (tiles g)" "nat x < length (tiles g ! nat y)"
proof -
  show 1: "nat y < length (tiles g)" using assms by (auto simp: wf_grid_def in_bounds_def)
  then show 2: "tiles g ! nat y \<in> set (tiles g)" by simp
  then show 3: "nat x < length (tiles g ! nat y)" using assms by (auto simp: wf_grid_def in_bounds_def)
  then show "tile_at g x y \<in> set (tiles g ! nat y)" by (simp add: tile_at_def)
qed

lemma in_bounds_cong: "width g' = width g \<Longrightarrow> height g' = height g \<Longrightarrow> in_bounds g' c = in_bounds g c"
  by (simp add: in_bounds_def)

text \<open>
  C2: in a successful run of generate, the water flag of every tile of the grid equals
  (elevation < 0.4) as elevation synthesis left both fields, and neither the hydrology
  stage nor the climate stage nor the biome stage changes the water flag or the
  elevation of any tile: the three later grids agree with the grid of elevation
  synthesis on both fields, so the invariant holds in the final grid.
\<close>

theorem generate_water_elevation:
  assumes "generate R g = Inr (out, g')"
  shows "\<exists>g1 g2. generate_elevation R g = Inr g1 \<and> generate_rivers R g1 = Inr g2 \<and>
           assign_biomes (calculate_moisture g2) = Inr g' \<and>
           (\<forall>x y. in_bounds g' (x, y) \<longrightarrow>
              water (tile_at g1 x y) = (elevation (tile_at g1 x y) < 0.4) \<and>
              elevation (tile_at g2 x y) = elevation (tile_at g1 x y) \<and>
              water (tile_at g2 x y) = water (tile_at g1 x y) \<and>
              elevation (tile_at (calculate_moisture g2) x y) = elevation (tile_at g1 x y) \<and>
              water (tile_at (calculate_moisture g2) x y) = water (tile_at g1 x y) \<and>
              elevation (tile_at g' x y) = elevation (tile_at g1 x y) \<and>
              water (tile_at g' x y) = water (tile_at g1 x y) \<and>
              water (tile_at g' x y) = (elevation (tile_at g' x y) < 0.4))"
proof -
  from assms obtain g1 g2 where
    s: "generate_elevation R g = Inr g1" "generate_rivers R g1 = Inr g2"
       "assign_biomes (calculate_moisture g2) = Inr g'"
    unfolding generate_stages by blast
  let ?g3 = "calculate_moisture g2"
  have t12: "same_terrain g1 g2" using generate_rivers_terrain[OF s(2)] .
  have f23: "same_fields g2 ?g3" by (rule calculate_moisture_fields)
  have f34: "same_fields ?g3 g'" using assign_biomes_fields[of ?g3] s(3) by auto
  have wf1: "wf_grid g1" using generate_elevation_result(1)[OF s(1)] .
  have dims: "width g' = width g1" "height g' = height g1"
    using t12 same_fields_facts(1,2)[OF f23] same_fields_facts(1,2)[OF f34]
    by (simp_all add: same_terrain_def)
  have "\<forall>x y. in_bounds g' (x, y) \<longrightarrow>
              water (tile_at g1 x y) = (elevation (tile_at g1 x y) < 0.4) \<and>
              elevation (tile_at g2 x y) = elevation (tile_at g1 x y) \<and>
              water (tile_at g2 x y) = water (tile_at g1 x y) \<and>
              elevation (tile_at ?g3 x y) = elevation (tile_at g1 x y) \<and>
              water (tile_at ?g3 x y) = water (tile_at g1 x y) \<and>
              elevation (tile_at g' x y) = elevation (tile_at g1 x y) \<and>
              water (tile_at g' x y) = water (tile_at g1 x y) \<and>
              water (tile_at g' x y) = (elevation (tile_at g' x y) < 0.4)"
  proof (intro allI impI)
    fix x y assume "in_bounds g' (x, y)"
    then have b: "in_bounds g1 (x, y)" using in_bounds_cong[OF dims] by simp
    have "fresh_tile (tile_at g1 x y)"
      using generate_elevation_result(3)[OF s(1)] wf_grid_nth(1,2)[OF wf1 b] by blast
    then have w: "water (tile_at g1 x y) = (elevation (tile_at g1 x y) < 0.4)"
      by (simp add: fresh_tile_def)
    show "water (tile_at g1 x y) = (elevation (tile_at g1 x y) < 0.4) \<and>
              elevation (tile_at g2 x y) = elevation (tile_at g1 x y) \<and>
              water (tile_at g2 x y) = water (tile_at g1 x y) \<and>
              elevation (tile_at ?g3 x y) = elevation (tile_at g1 x y) \<and>
              water (tile_at ?g3 x y) = water (tile_at g1 x y) \<and>
              elevation (tile_at g' x y) = elevation (tile_at g1 x y) \<and>
              water (tile_at g' x y) = water (tile_at g1 x y) \<and>
              water (tile_at g' x y) = (elevation (tile_at g' x y) < 0.4)"
      using w same_terrain_tile[OF t12, of x y] same_fields_facts(8,9)[OF f23, of x y]
        same_fields_facts(8,9)[OF f34, of x y]
      by simp
  qed
  then show ?thesis using s by blast
qed

lemma generate_rivers_succeeds:
  "0 \<le> river_count g \<Longrightarrow> \<exists>g'. generate_rivers R g = Inr g'"
  by (auto simp: generate_rivers_def Let_def split: prod.splits)

lemma generate_succeeds:
  assumes "scale g \<noteq> 0" and "(\<Sum>i<nat (octaves g). persistence g ^ i) \<noteq> 0" and "0 \<le> river_count g"
  shows "\<exists>out g'. generate R g = Inr (out, g')"
proof -
  from generate_elevation_succeeds[OF assms(1,2)] obtain g1 where 1: "generate_elevation R g = Inr g1"
    by blast
  then obtain ts r where "g1 = g\<lparr>tiles := ts, rng := r\<rparr>"
    using generate_elevation_result(2) by blast
  then have "0 \<le> river_count g1" using assms(3) by simp
  from generate_rivers_succeeds[OF this] obtain g2 where 2: "generate_rivers R g1 = Inr g2" by blast
  from assign_biomes_fields[of "calculate_moisture g2"] obtain g4 where
    3: "assign_biomes (calculate_moisture g2) = Inr g4" by blast
  show ?thesis using 1 2 3 unfolding generate_stages by blast
qed

lemma default_generate: "\<exists>out g'. generate fixed_random default_generator = Inr (out, g')"
proof (rule generate_succeeds)
  show "scale default_generator \<noteq> 0" by (simp add: default_generator_def)
  show "0 \<le> river_count default_generator" by (simp add: default_generator_def)
  have "nat (octaves default_generator) = 5" by (simp add: default_generator_def)
  then show "(\<Sum>i<nat (octaves default_generator). persistence default_generator ^ i) \<noteq> 0"
    by (simp add: default_generator_def eval_nat_numeral)
qed

lemma generate_dims:
  assumes "generate R g = Inr (out, g')"
  shows "width g' = width g" "height g' = height g" "river_count g' = river_count g"
proof -
  from assms obtain g1 g2 where
    s: "generate_elevation R g = Inr g1" "generate_rivers R g1 = Inr g2"
       "assign_biomes (calculate_moisture g2) = Inr g'"
    unfolding generate_stages by blast
  obtain ts r where 1: "g1 = g\<lparr>tiles := ts, rng := r\<rparr>"
    using generate_elevation_result(2)[OF s(1)] by blast
  obtain sel r' where 2: "g2 = rivers_loop (g1\<lparr>rng := r'\<rparr>) (List.enumerate 0 sel)"
    using s(2) by (auto simp: generate_rivers_def Let_def split: if_splits prod.splits)
  have f23: "same_fields g2 (calculate_moisture g2)" by (rule calculate_moisture_fields)
  have f34: "same_fields (calculate_moisture g2) g'"
    using assign_biomes_fields[of "calculate_moisture g2"] s(3) by auto
  have "width g2 = width g" "height g2 = height g" "river_count g2 = river_count g"
    unfolding 2 rivers_loop_result[of "g1\<lparr>rng := r'\<rparr>"] by (simp_all add: 1)
  then show "width g' = width g" "height g' = height g" "river_count g' = river_count g"
    using same_fields_facts(1,2,4)[OF f23] same_fields_facts(1,2,4)[OF f34] by simp_all
qed

theorem generate_water_elevation_witness:
  "\<not> isl (generate fixed_random default_generator) \<and>
   water (tile_at (snd (projr (generate fixed_random default_generator))) 0 0) =
     (elevation (tile_at (snd (projr (generate fixed_random default_generator))) 0 0) < 0.4)"
proof -
  from default_generate obtain out g' where g: "generate fixed_random default_generator = Inr (out, g')"
    by blast
  from generate_water_elevation[OF g] have
    h: "\<forall>x y. in_bounds g' (x, y) \<longrightarrow> water (tile_at g' x y) = (elevation (tile_at g' x y) < 0.4)"
    by blast
  have "in_bounds g' (0, 0)"
    using generate_dims(1,2)[OF g] by (simp add: in_bounds_def default_generator_def)
  with h have "water (tile_at g' 0 0) = (elevation (tile_at g' 0 0) < 0.4)" by blast
  then show ?thesis using g by simp
qed

subsection \<open>Rivers of a run\<close>

lemma same_terrain_sources: "same_terrain g g' \<Longrightarrow> river_sources g' = river_sources g"
proof -
  assume st: "same_terrain g g'"
  then have "grid_coords g' = grid_coords g" by (simp add: grid_coords_def same_terrain_def)
  then show ?thesis by (simp add: river_sources_def Let_def same_terrain_tile[OF st])
qed

lemma river_sources_in_bounds: "c \<in> set (river_sources g) \<Longrightarrow> in_bounds g c"
  by (auto simp: river_sources_def grid_coords_def in_bounds_def)

lemma trace_river_path_facts:
  assumes "in_bounds g (sx, sy)"
  shows "distinct (trace_river_path g sx sy)" "four_connected (trace_river_path g sx sy)"
    "\<forall>c \<in> set (trace_river_path g sx sy). in_bounds g c"
    "hd (trace_river_path g sx sy) = (sx, sy)" "trace_river_path g sx sy \<noteq> []"
proof -
  obtain p n where t: "trace_loop g (width g * height g) 0 (sx, sy) [(sx, sy)] {(sx, sy)} = (p, n)"
    by (cases "trace_loop g (width g * height g) 0 (sx, sy) [(sx, sy)] {(sx, sy)}")
  then have p: "trace_river_path g sx sy = p" by (simp add: trace_river_path_def)
  from trace_river_path_chain[OF t] have c: "p \<noteq> []" "hd p = (sx, sy)" "chain_from g p 1" by auto
  show "distinct (trace_river_path g sx sy)" "four_connected (trace_river_path g sx sy)"
    "hd (trace_river_path g sx sy) = (sx, sy)" "trace_river_path g sx sy \<noteq> []"
    using chain_path_facts(1,2)[OF c(3)] c p by simp_all
  show "\<forall>c \<in> set (trace_river_path g sx sy). in_bounds g c"
    using chain_path_facts(3)[OF c(3) c(1)] assms c(2) p by simp
qed

text \<open>What the hydrology stage establishes for the rivers it adds, on a well-formed grid.\<close>

lemma enumerate_snd_mem: "s \<in> set (List.enumerate 0 sel) \<Longrightarrow> snd s \<in> set sel"
  by (metis in_set_enumerate_eq nth_mem diff_zero add_0_right)

lemma generate_rivers_valid:
  assumes ok: "sample_ok R" and wf: "wf_grid g" and gr: "generate_rivers R g = Inr g'"
  shows "\<exists>new. rivers g' = rivers g @ new \<and>
           int (length new) \<le> min (river_count g) (int (length (river_sources g))) \<and>
           (\<forall>r \<in> set new. 10 < length (path r) \<and> four_connected (path r) \<and> distinct (path r) \<and>
              (\<forall>c \<in> set (path r). in_bounds g c \<and> river (tile_at g' (fst c) (snd c))) \<and>
              river_length r = length (path r) \<and> hd (path r) = source r \<and>
              last (path r) = mouth r \<and> path r = trace_river_path g (fst (source r)) (snd (source r)))"
proof -
  have nn: "0 \<le> river_count g"
  proof (rule ccontr)
    assume "\<not> 0 \<le> river_count g"
    then have "river_count g < 0" by simp
    from generate_rivers_error[OF this, of R] gr show False by simp
  qed
  let ?k = "nat (min (int (length (river_sources g))) (river_count g))"
  from generate_rivers_result[OF ok nn] obtain sel r' where
    h: "length sel = ?k" "mset sel \<subseteq># mset (river_sources g)"
       "generate_rivers R g = Inr (g\<lparr>rng := r',
                    rivers := rivers g @ map (make_river g) (kept_sources g (List.enumerate 0 sel)),
                    tiles := mark_path (tiles g)
                      (concat (map (\<lambda>s. path (make_river g s)) (kept_sources g (List.enumerate 0 sel))))\<rparr>)"
    by blast
  let ?ks = "kept_sources g (List.enumerate 0 sel)"
  let ?new = "map (make_river g) ?ks"
  let ?P = "concat (map (\<lambda>s. path (make_river g s)) ?ks)"
  have g': "g' = g\<lparr>rng := r', rivers := rivers g @ ?new, tiles := mark_path (tiles g) ?P\<rparr>"
    using gr h(3) by simp
  have r: "rivers g' = rivers g @ ?new" by (subst g') simp
  have tg: "tiles g' = mark_path (tiles g) ?P" by (subst g') simp
  have "length ?ks \<le> length (List.enumerate 0 sel)" unfolding kept_sources_def by (rule length_filter_le)
  then have "length ?new \<le> ?k" using h(1) by simp
  then have cnt: "int (length ?new) \<le> min (river_count g) (int (length (river_sources g)))"
    using nn by linarith
  have "set_mset (mset sel) \<subseteq> set_mset (mset (river_sources g))" using h(2) by (rule set_mset_mono)
  then have selsub: "set sel \<subseteq> set (river_sources g)" by simp
  have each: "\<forall>r \<in> set ?new. 10 < length (path r) \<and> four_connected (path r) \<and> distinct (path r) \<and>
              (\<forall>c \<in> set (path r). in_bounds g c \<and> river (tile_at g' (fst c) (snd c))) \<and>
              river_length r = length (path r) \<and> hd (path r) = source r \<and>
              last (path r) = mouth r \<and> path r = trace_river_path g (fst (source r)) (snd (source r))"
  proof
    fix r assume "r \<in> set ?new"
    then obtain s where s: "s \<in> set ?ks" "r = make_river g s" by auto
    let ?p = "trace_river_path g (fst (snd s)) (snd (snd s))"
    have long: "10 < length ?p" using s(1) by (simp add: kept_sources_def)
    have "s \<in> set (List.enumerate 0 sel)" using s(1) by (simp add: kept_sources_def)
    then have "snd s \<in> set sel" by (rule enumerate_snd_mem)
    then have "snd s \<in> set (river_sources g)" using selsub by blast
    then have "in_bounds g (snd s)" by (rule river_sources_in_bounds)
    then have b: "in_bounds g (fst (snd s), snd (snd s))" by simp
    note f = trace_river_path_facts[OF b]
    have pr: "path r = ?p" "source r = snd s" "mouth r = last ?p" "river_length r = length ?p"
      by (simp_all add: s(2) make_river_def)
    have marked: "\<forall>c \<in> set ?p. in_bounds g c \<and> river (tile_at g' (fst c) (snd c))"
    proof
      fix c assume c: "c \<in> set ?p"
      then have cb: "in_bounds g c" using f(3) by blast
      then have cb': "in_bounds g (fst c, snd c)" by simp
      have "?p \<in> set (map (\<lambda>s. path (make_river g s)) ?ks)"
        using s(1) by (auto simp: make_river_def intro!: image_eqI[of _ _ s])
      then have cp: "c \<in> set ?P" using c by auto
      have l: "nat (snd c) < length (tiles g)" "nat (fst c) < length (tiles g ! nat (snd c))"
        using wf_grid_nth(3,4)[OF wf cb'] by simp_all
      have "river (mark_path (tiles g) ?P ! nat (snd c) ! nat (fst c))"
        unfolding mark_path_river using cp l by blast
      then show "in_bounds g c \<and> river (tile_at g' (fst c) (snd c))"
        using cb by (simp add: tile_at_def tg)
    qed
    have "hd ?p = snd s" using f(4) by simp
    then show "10 < length (path r) \<and> four_connected (path r) \<and> distinct (path r) \<and>
              (\<forall>c \<in> set (path r). in_bounds g c \<and> river (tile_at g' (fst c) (snd c))) \<and>
              river_length r = length (path r) \<and> hd (path r) = source r \<and>
              last (path r) = mouth r \<and> path r = trace_river_path g (fst (source r)) (snd (source r))"
      unfolding pr using long f(1,2) marked by simp
  qed
  show ?thesis using r cnt each by blast
qed

text \<open>
  The rivers of a first run: in a successful run of generate on a generator whose river
  list is empty (as the constructor leaves it), every kept river has a path longer than 10 that is
  4-connected and without repeated coordinate, every path coordinate lies in the grid and
  its tile has the river flag set in the final grid, and the number of kept rivers is at
  most min(river_count, number of tiles with elevation > 0.7 and not water), the latter
  being the length of \<^const>\<open>river_sources\<close> on the final grid. The library's sample is
  assumed to return k elements of the population (\<^const>\<open>sample_ok\<close>).
\<close>

lemma generate_river_validity:
  assumes ok: "sample_ok R" and fresh: "rivers g = []" and gen: "generate R g = Inr (out, g')"
  shows "(\<forall>r \<in> set (rivers g').
            10 < length (path r) \<and> four_connected (path r) \<and> distinct (path r) \<and>
            (\<forall>c \<in> set (path r). in_bounds g' c \<and> river (tile_at g' (fst c) (snd c))) \<and>
            river_length r = length (path r) \<and> hd (path r) = source r \<and> last (path r) = mouth r) \<and>
         int (length (rivers g')) \<le> min (river_count g') (int (length (river_sources g')))"
proof -
  from gen obtain g1 g2 where
    s: "generate_elevation R g = Inr g1" "generate_rivers R g1 = Inr g2"
       "assign_biomes (calculate_moisture g2) = Inr g'"
    unfolding generate_stages by blast
  let ?g3 = "calculate_moisture g2"
  have wf1: "wf_grid g1" using generate_elevation_result(1)[OF s(1)] .
  obtain ts r0 where g1: "g1 = g\<lparr>tiles := ts, rng := r0\<rparr>"
    using generate_elevation_result(2)[OF s(1)] by blast
  have r1: "rivers g1 = []" using fresh by (simp add: g1)
  have t12: "same_terrain g1 g2" using generate_rivers_terrain[OF s(2)] .
  have f23: "same_fields g2 ?g3" by (rule calculate_moisture_fields)
  have f34: "same_fields ?g3 g'" using assign_biomes_fields[of ?g3] s(3) by auto
  have t1': "same_terrain g1 g'"
    using same_terrain_trans[OF t12 same_terrain_trans[OF same_fields_facts(5)[OF f23] same_fields_facts(5)[OF f34]]] .
  have dims: "width g' = width g1" "height g' = height g1"
    using t1' by (simp_all add: same_terrain_def)
  have rc: "river_count g' = river_count g1"
    using generate_dims(3)[OF gen] by (simp add: g1)
  have rv: "rivers g' = rivers g2"
    using same_fields_facts(3)[OF f23] same_fields_facts(3)[OF f34] by simp
  have fl: "\<And>x y. river (tile_at g' x y) = river (tile_at g2 x y)"
    using same_fields_facts(7)[OF f23] same_fields_facts(7)[OF f34] by simp
  have src: "river_sources g' = river_sources g1" using same_terrain_sources[OF t1'] .
  from generate_rivers_valid[OF ok wf1 s(2)] r1 have
    v: "int (length (rivers g2)) \<le> min (river_count g1) (int (length (river_sources g1)))"
       "\<forall>r \<in> set (rivers g2). 10 < length (path r) \<and> four_connected (path r) \<and> distinct (path r) \<and>
              (\<forall>c \<in> set (path r). in_bounds g1 c \<and> river (tile_at g2 (fst c) (snd c))) \<and>
              river_length r = length (path r) \<and> hd (path r) = source r \<and>
              last (path r) = mouth r"
    by auto
  have ib: "\<And>c. in_bounds g' c = in_bounds g1 c" using in_bounds_cong[OF dims] .
  show ?thesis unfolding rv fl ib rc src using v by blast
qed

lemma generate_river_validity_example:
  "sample_ok fixed_random \<and> rivers default_generator = [] \<and>
   \<not> isl (generate fixed_random default_generator) \<and>
   int (length (rivers (snd (projr (generate fixed_random default_generator))))) \<le> 8"
proof -
  have f: "rivers default_generator = []" by (simp add: default_generator_def)
  from default_generate obtain out g' where g: "generate fixed_random default_generator = Inr (out, g')"
    by blast
  from generate_river_validity[OF sample_ok_fixed f g]
  have "int (length (rivers g')) \<le> min (river_count g') (int (length (river_sources g')))" by blast
  moreover have "river_count g' = 8" using generate_dims(3)[OF g] by (simp add: default_generator_def)
  ultimately have "int (length (rivers g')) \<le> 8" by simp
  then show ?thesis using g f sample_ok_fixed by simp
qed

lemma generate_ignores_tiles: "generate R (g\<lparr>tiles := ts\<rparr>) = generate R g"
  by (simp add: generate_def generate_elevation_ignores_tiles)

lemma init_fresh:
  assumes "TerrainGenerator_init R w h sd m oc pe la sc rc wi = Inr g"
  shows "width g = w" "height g = h" "seed g = sd" "mode g = m" "octaves g = oc" "persistence g = pe"
    "lacunarity g = la" "scale g = sc" "river_count g = rc" "prevailing_wind g = wi"
    "rng g = rng_of_seed R (seed g)" "noise g = SimplexNoise_init R (seed g)" "rivers g = []" "tiles g = []"
  using assms by (auto simp: TerrainGenerator_init_def split: if_splits)

text \<open>
  C1: two generators that agree on (seed, width, height, mode, octaves, persistence,
  lacunarity, scale, river_count, prevailing_wind) and are as the constructor leaves them
  (generator and noise table seeded from the seed, empty river list) give the same result
  of generate, error or not: the same dictionary (hence the same tile fields and river
  entries) and the same final grid and river list. Nothing else of the object is read:
  the grid it held before is overwritten. Lemma \<open>init_fresh\<close> shows that the constructor
  establishes the hypotheses.
\<close>

theorem generate_deterministic:
  assumes "width g2 = width g1" "height g2 = height g1" "seed g2 = seed g1" "mode g2 = mode g1"
    "octaves g2 = octaves g1" "persistence g2 = persistence g1" "lacunarity g2 = lacunarity g1"
    "scale g2 = scale g1" "river_count g2 = river_count g1" "prevailing_wind g2 = prevailing_wind g1"
    and "rng g1 = rng_of_seed R (seed g1)" "rng g2 = rng_of_seed R (seed g2)"
    and "noise g1 = SimplexNoise_init R (seed g1)" "noise g2 = SimplexNoise_init R (seed g2)"
    and "rivers g1 = []" "rivers g2 = []"
  shows "generate R g1 = generate R g2"
proof -
  have "g2 = g1\<lparr>tiles := tiles g2\<rparr>"
    by (rule TerrainGenerator.equality) (simp_all add: assms)
  then have "generate R g2 = generate R (g1\<lparr>tiles := tiles g2\<rparr>)" by simp
  then show ?thesis by (simp add: generate_ignores_tiles)
qed

theorem generate_deterministic_witness:
  "TerrainGenerator_init fixed_random 50 50 1 ''continent'' 5 0.5 2 100 8 ''west'' = Inr default_generator \<and>
   generate fixed_random default_generator =
     generate fixed_random (default_generator\<lparr>tiles := [[ramp_tile 0 0]]\<rparr>) \<and>
   \<not> isl (generate fixed_random default_generator)"
proof -
  note i = init_fresh[OF init_default]
  have "generate fixed_random default_generator =
     generate fixed_random (default_generator\<lparr>tiles := [[ramp_tile 0 0]]\<rparr>)"
    by (rule generate_deterministic) (simp_all add: i)
  moreover have "\<not> isl (generate fixed_random default_generator)" using default_generate by auto
  ultimately show ?thesis using init_default by simp
qed

subsection \<open>A second run on the same object\<close>

lemma generate_keeps_rivers:
  assumes "generate R g = Inr (out, g')"
  shows "\<exists>new. rivers g' = rivers g @ new"
proof -
  from assms obtain g1 g2 where
    s: "generate_elevation R g = Inr g1" "generate_rivers R g1 = Inr g2"
       "assign_biomes (calculate_moisture g2) = Inr g'"
    unfolding generate_stages by blast
  obtain ts r0 where g1: "g1 = g\<lparr>tiles := ts, rng := r0\<rparr>"
    using generate_elevation_result(2)[OF s(1)] by blast
  obtain sel r' where 2: "g2 = rivers_loop (g1\<lparr>rng := r'\<rparr>) (List.enumerate 0 sel)"
    using s(2) by (auto simp: generate_rivers_def Let_def split: if_splits prod.splits)
  have f23: "same_fields g2 (calculate_moisture g2)" by (rule calculate_moisture_fields)
  have f34: "same_fields (calculate_moisture g2) g'"
    using assign_biomes_fields[of "calculate_moisture g2"] s(3) by auto
  have "\<exists>new. rivers g2 = rivers g @ new"
    unfolding 2 rivers_loop_result[of "g1\<lparr>rng := r'\<rparr>"] by (simp add: g1)
  then show ?thesis using same_fields_facts(3)[OF f23] same_fields_facts(3)[OF f34] by simp
qed

lemma ramp_kept: "kept_sources ramp_grid [(0, (11, 0))] = [(0, (11, 0))]"
  by (simp add: kept_sources_def ramp_path)

lemma ramp_make: "make_river ramp_grid (0, (11, 0)) = ramp_river"
  by (simp add: make_river_def ramp_path ramp_river_def format_03d_0)

lemma singleton_sample:
  assumes "mset sel \<subseteq># mset [c]" "length sel = 1"
  shows "sel = [c]"
proof -
  obtain a where a: "sel = [a]" using assms(2) by (cases sel) auto
  then have "a \<in># mset [c]" using assms(1) by (metis mset_subset_eqD list.set_intros(1) set_mset_mset)
  then show ?thesis using a by simp
qed

lemma ramp_first_run:
  "\<exists>ts. generate_rivers fixed_random ramp_grid = Inr (ramp_grid\<lparr>rivers := [ramp_river], tiles := ts\<rparr>)"
proof -
  have nn: "0 \<le> river_count ramp_grid" by (simp add: rg)
  from generate_rivers_result[OF sample_ok_fixed nn] obtain sel r' where
    h: "length sel = nat (min (int (length (river_sources ramp_grid))) (river_count ramp_grid))"
       "mset sel \<subseteq># mset (river_sources ramp_grid)"
       "generate_rivers fixed_random ramp_grid =
          Inr (ramp_grid\<lparr>rng := r',
                 rivers := rivers ramp_grid @ map (make_river ramp_grid)
                             (kept_sources ramp_grid (List.enumerate 0 sel)),
                 tiles := mark_path (tiles ramp_grid)
                   (concat (map (\<lambda>s. path (make_river ramp_grid s))
                      (kept_sources ramp_grid (List.enumerate 0 sel))))\<rparr>)"
    by blast
  have sel: "sel = [(11, 0)]"
    using singleton_sample[of sel "(11, 0)"] h(1,2) by (simp add: ramp_sources rg)
  have e: "List.enumerate 0 [(11, 0) :: int \<times> int] = [(0, (11, 0))]" by simp
  have u: "ramp_grid\<lparr>rng := r'\<rparr> = ramp_grid" by simp
  have "generate_rivers fixed_random ramp_grid =
          Inr (ramp_grid\<lparr>rivers := [ramp_river],
                 tiles := mark_path (tiles ramp_grid) (path ramp_river)\<rparr>)"
    unfolding h(3) sel e ramp_kept u by (simp add: ramp_make rg)
  then show ?thesis by (rule exI)
qed

lemma ramp_second_run_eq: "ramp_second_run = ramp_grid\<lparr>rivers := [ramp_river]\<rparr>"
proof -
  from ramp_first_run obtain ts where
    "generate_rivers fixed_random ramp_grid = Inr (ramp_grid\<lparr>rivers := [ramp_river], tiles := ts\<rparr>)"
    by blast
  then show ?thesis by (simp add: ramp_second_run_def)
qed

lemma same_terrain_rivers: "same_terrain g (g\<lparr>rivers := rs\<rparr>)"
  by (simp add: same_terrain_def)

text \<open>
  C3: the river list of the output is claimed to hold at most
  min(river_count, number of tiles with elevation > 0.7 and not water) rivers. The river
  list \<^verbatim>\<open>self.rivers\<close> is set to empty only by the constructor, while the grid is rebuilt
  by every run, and \<^verbatim>\<open>_generate_rivers\<close> appends to it (lemma \<open>generate_keeps_rivers\<close>:
  the rivers held before a run are a prefix of those after it). On the second run over
  the one-row grid, with a single eligible source and river_count = 8, the output holds
  two rivers: the stale one of the first run and the new one.
\<close>

theorem second_run_keeps_stale_rivers:
  "rivers ramp_second_run = [ramp_river] \<and>
   tiles ramp_second_run = tiles ramp_grid \<and>
   river_sources ramp_second_run = [(11, 0)] \<and>
   river_count ramp_second_run = 8 \<and>
   rivers (projr (generate_rivers fixed_random ramp_second_run)) = [ramp_river, ramp_river] \<and>
   \<not> int (length (rivers (projr (generate_rivers fixed_random ramp_second_run))))
        \<le> min (river_count ramp_second_run) (int (length (river_sources ramp_second_run)))"
proof -
  let ?g = "ramp_grid\<lparr>rivers := [ramp_river]\<rparr>"
  have st: "same_terrain ramp_grid ?g" by (rule same_terrain_rivers)
  have src: "river_sources ?g = [(11, 0)]" using same_terrain_sources[OF st] by (simp add: ramp_sources)
  have nn: "0 \<le> river_count ?g" by (simp add: rg)
  from generate_rivers_result[OF sample_ok_fixed nn] obtain sel r' where
    h: "length sel = nat (min (int (length (river_sources ?g))) (river_count ?g))"
       "mset sel \<subseteq># mset (river_sources ?g)"
       "generate_rivers fixed_random ?g =
          Inr (?g\<lparr>rng := r',
                 rivers := rivers ?g @ map (make_river ?g) (kept_sources ?g (List.enumerate 0 sel)),
                 tiles := mark_path (tiles ?g)
                   (concat (map (\<lambda>s. path (make_river ?g s)) (kept_sources ?g (List.enumerate 0 sel))))\<rparr>)"
    by blast
  have sel: "sel = [(11, 0)]"
    using singleton_sample[of sel "(11, 0)"] h(1,2) by (simp add: src rg)
  have e: "List.enumerate 0 [(11, 0) :: int \<times> int] = [(0, (11, 0))]" by simp
  have k: "kept_sources ?g [(0, (11, 0))] = [(0, (11, 0))]"
    unfolding same_terrain_kept[OF st] by (rule ramp_kept)
  have m: "make_river ?g (0, (11, 0)) = ramp_river"
    unfolding same_terrain_make[OF st] by (rule ramp_make)
  have "rivers (projr (generate_rivers fixed_random ?g)) = [ramp_river, ramp_river]"
    unfolding h(3) sel e k by (simp add: m)
  then show ?thesis unfolding ramp_second_run_eq using src by (simp add: rg)
qed

subsection \<open>Highlands mode\<close>

lemma perm_seed1_length: "length perm_seed1 = 256"
  by (simp add: perm_seed1_def)

lemma perm_seed1_lookup:
  "perm noise_seed1 ! 0 = 233" "perm noise_seed1 ! 1 = 254"
  "perm noise_seed1 ! 100 = 220" "perm noise_seed1 ! 101 = 29"
  "perm noise_seed1 ! 234 = 99" "perm noise_seed1 ! 235 = 213"
  "perm noise_seed1 ! 255 = 68" "perm noise_seed1 ! 256 = 233"
  "perm noise_seed1 ! 321 = 82" "perm noise_seed1 ! 322 = 60"
  "perm noise_seed1 ! 130 = 33" "perm noise_seed1 ! 131 = 98"
  "perm noise_seed1 ! 242 = 97" "perm noise_seed1 ! 243 = 166"
  "perm noise_seed1 ! 263 = 222" "perm noise_seed1 ! 264 = 119"
  "perm noise_seed1 ! 252 = 205" "perm noise_seed1 ! 253 = 216"
  "perm noise_seed1 ! 273 = 18" "perm noise_seed1 ! 274 = 225"
  "perm noise_seed1 ! 271 = 36" "perm noise_seed1 ! 272 = 193"
  "perm noise_seed1 ! 292 = 165" "perm noise_seed1 ! 293 = 158"
  "perm noise_seed1 ! 309 = 235" "perm noise_seed1 ! 310 = 238"
  "perm noise_seed1 ! 330 = 163" "perm noise_seed1 ! 331 = 20"
  "perm noise_seed1 ! 386 = 33" "perm noise_seed1 ! 387 = 98"
  "perm noise_seed1 ! 407 = 208" "perm noise_seed1 ! 408 = 125"
  by (simp_all add: noise_seed1_def nth_append perm_seed1_length) (simp_all add: perm_seed1_def)

lemma perm_seed1_lookup_Suc: "perm noise_seed1 ! Suc 0 = 254"
  using perm_seed1_lookup(2) by simp

lemmas noise_eval = noise2d_def Let_def py_int_def perm_seed1_lookup perm_seed1_lookup_Suc
  grad_def fade_def lerp_def

lemma noise_warp_x: "noise2d noise_seed1 0 (36 / 25) = - (118805918 / 244140625)"
  by (simp add: noise_eval)

lemma noise_warp_y: "noise2d noise_seed1 100 (2536 / 25) = 502194 / 9765625"
  by (simp add: noise_eval)

lemma noise_warped: "noise2d noise_seed1 (- (237611836 / 244140625)) (94754388 / 9765625) < - 41"
  by (simp add: noise_eval)

lemma noise_octaves:
  "noise2d noise_seed1 0 (48 / 5) = - (258 / 3125)"
  "noise2d noise_seed1 0 (96 / 5) = 444 / 3125"
  "noise2d noise_seed1 0 (192 / 5) = 258 / 3125"
  "noise2d noise_seed1 0 (384 / 5) = - (3668 / 15625)"
  "noise2d noise_seed1 0 (768 / 5) = - (258 / 3125)"
  by (simp_all add: noise_eval)

lemma init_highlands:
  "TerrainGenerator_init seed1_random 50 50 1 ''highlands'' 5 0.5 2 5 8 ''west'' = Inr highlands_generator"
  by (simp add: TerrainGenerator_init_def highlands_generator_def SimplexNoise_init_def
      seed1_random_def noise_seed1_def)

lemma hg: "mode highlands_generator = ''highlands''" "octaves highlands_generator = 5"
  "persistence highlands_generator = 1 / 2" "lacunarity highlands_generator = 2"
  "scale highlands_generator = 5" "noise highlands_generator = noise_seed1"
  "width highlands_generator = 50" "height highlands_generator = 50"
  "river_count highlands_generator = 8" "rng highlands_generator = ()"
  by (simp_all add: highlands_generator_def)

lemma highlands_octaves:
  "octave_loop noise_seed1 5 (1 / 2) 2 0 48 5 (0, 1, 1, 0) = (- (3173 / 125000), 1 / 32, 32, 31 / 16)"
  by (simp add: eval_nat_numeral Let_def noise_octaves)

lemma highlands_tile:
  "\<exists>t. elevation_tile R highlands_generator r 0 48 = Inr (t, r) \<and> elevation t = 0 \<and> water t"
proof -
  have n: "nat 5 = 5" by simp
  have c: "max 0 (min 1 ((3 / 2 + (4302261 / 4843750 + (6 * w + 6) / 10) / 2) / 2)) = (0::real)"
    if "w < - 41" for w :: real
  proof -
    have "(3 / 2 + (4302261 / 4843750 + (6 * w + 6) / 10) / 2) / 2 < 0" using that by argo
    then show ?thesis by (simp add: max_def min_def)
  qed
  show ?thesis
    using c[OF noise_warped]
    by (simp add: elevation_tile_def hg n highlands_octaves apply_mode_shaping_def Let_def
        noise_warp_x noise_warp_y)
qed

lemma elevation_row_nth:
  "elevation_row R g y xs r = Inr (ts, r') \<Longrightarrow> i < length xs \<Longrightarrow>
     \<exists>r1 r2. elevation_tile R g r1 (xs ! i) y = Inr (ts ! i, r2)"
proof (induction xs arbitrary: r ts i)
  case Nil
  then show ?case by simp
next
  case (Cons x xs)
  from Cons.prems(1) obtain t r1 ts' where
    h: "elevation_tile R g r x y = Inr (t, r1)" "elevation_row R g y xs r1 = Inr (ts', r')" "ts = t # ts'"
    by (auto split: sum.splits prod.splits)
  show ?case
  proof (cases i)
    case 0
    then show ?thesis using h by auto
  next
    case (Suc k)
    then have "k < length xs" using Cons.prems(2) by simp
    from Cons.IH[OF h(2) this] show ?thesis using Suc h(3) by simp
  qed
qed

lemma elevation_rows_nth:
  "elevation_rows R g ys r = Inr (rows, r') \<Longrightarrow> j < length ys \<Longrightarrow>
     \<exists>r1 r2. elevation_row R g (ys ! j) (map int [0..<nat (width g)]) r1 = Inr (rows ! j, r2)"
proof (induction ys arbitrary: r rows j)
  case Nil
  then show ?case by simp
next
  case (Cons y ys)
  from Cons.prems(1) obtain row r1 rows' where
    h: "elevation_row R g y (map int [0..<nat (width g)]) r = Inr (row, r1)"
       "elevation_rows R g ys r1 = Inr (rows', r')" "rows = row # rows'"
    by (auto split: sum.splits prod.splits)
  show ?case
  proof (cases j)
    case 0
    then show ?thesis using h by auto
  next
    case (Suc k)
    then have "k < length ys" using Cons.prems(2) by simp
    from Cons.IH[OF h(2) this] show ?thesis using Suc h(3) by simp
  qed
qed

lemma generate_elevation_tile:
  assumes "generate_elevation R g = Inr g1" and "in_bounds g (x, y)"
  shows "\<exists>r1 r2. elevation_tile R g r1 x y = Inr (tile_at g1 x y, r2)"
proof -
  from assms(1) obtain rows r' where
    h: "elevation_rows R g (map int [0..<nat (height g)]) (rng g) = Inr (rows, r')"
       "g1 = g\<lparr>tiles := rows, rng := r'\<rparr>"
    by (auto simp: generate_elevation_def split: sum.splits prod.splits)
  have b: "nat y < nat (height g)" "nat x < nat (width g)" "int (nat x) = x" "int (nat y) = y"
    using assms(2) by (auto simp: in_bounds_def)
  from elevation_rows_nth[OF h(1), of "nat y"] b obtain r1 r2 where
    1: "elevation_row R g y (map int [0..<nat (width g)]) r1 = Inr (rows ! nat y, r2)"
    by auto
  from elevation_row_nth[OF 1, of "nat x"] b obtain r3 r4 where
    "elevation_tile R g r3 x y = Inr (rows ! nat y ! nat x, r4)"
    by auto
  then show ?thesis unfolding h(2) by (auto simp: tile_at_def)
qed

lemma generate_tile:
  assumes gen: "generate R g = Inr (out, g')" and b: "in_bounds g (x, y)"
  shows "\<exists>r1 r2 t. elevation_tile R g r1 x y = Inr (t, r2) \<and>
           elevation (tile_at g' x y) = elevation t \<and> water (tile_at g' x y) = water t"
proof -
  from gen obtain g1 g2 where
    s: "generate_elevation R g = Inr g1" "generate_rivers R g1 = Inr g2"
       "assign_biomes (calculate_moisture g2) = Inr g'"
    unfolding generate_stages by blast
  let ?g3 = "calculate_moisture g2"
  have t12: "same_terrain g1 g2" using generate_rivers_terrain[OF s(2)] .
  have f23: "same_fields g2 ?g3" by (rule calculate_moisture_fields)
  have f34: "same_fields ?g3 g'" using assign_biomes_fields[of ?g3] s(3) by auto
  from generate_elevation_tile[OF s(1) b] obtain r1 r2 where
    e: "elevation_tile R g r1 x y = Inr (tile_at g1 x y, r2)" by blast
  have "elevation (tile_at g' x y) = elevation (tile_at g1 x y)"
       "water (tile_at g' x y) = water (tile_at g1 x y)"
    using same_terrain_tile[OF t12, of x y] same_fields_facts(8,9)[OF f23, of x y]
      same_fields_facts(8,9)[OF f34, of x y]
    by simp_all
  then show ?thesis using e by blast
qed

lemma highlands_generate: "\<exists>out g'. generate R highlands_generator = Inr (out, g')"
proof (rule generate_succeeds)
  show "scale highlands_generator \<noteq> 0" by (simp add: hg)
  show "0 \<le> river_count highlands_generator" by (simp add: hg)
  have "nat (octaves highlands_generator) = 5" by (simp add: hg)
  then show "(\<Sum>i<nat (octaves highlands_generator). persistence highlands_generator ^ i) \<noteq> 0"
    by (simp add: hg eval_nat_numeral)
qed

text \<open>
  C7: in highlands mode every tile of the generated grid is claimed to have
  water = false. For seed 1, a 50 x 50 map, scale 5.0 and the other parameters at their
  defaults, the generated grid has a water tile at (0, 48), whatever the library
  generator does: the warped sample coordinate is negative (-0.973...), \<^verbatim>\<open>int\<close>
  truncates it toward zero, and the noise function returns a value below -41 there
  instead of a value in [-1, 1]; the shaped elevation is negative and is clamped to 0.
\<close>

theorem highlands_generates_water:
  "mode highlands_generator = ''highlands'' \<and>
   \<not> isl (generate R highlands_generator) \<and>
   elevation (tile_at (snd (projr (generate R highlands_generator))) 0 48) = 0 \<and>
   water (tile_at (snd (projr (generate R highlands_generator))) 0 48)"
proof -
  from highlands_generate obtain out g' where g: "generate R highlands_generator = Inr (out, g')"
    by blast
  have b: "in_bounds highlands_generator (0, 48)" by (simp add: in_bounds_def hg)
  from generate_tile[OF g b] obtain r1 r2 t where
    t: "elevation_tile R highlands_generator r1 0 48 = Inr (t, r2)"
       "elevation (tile_at g' 0 48) = elevation t" "water (tile_at g' 0 48) = water t"
    by blast
  from highlands_tile[of R r1] t(1) have "elevation t = 0 \<and> water t" by auto
  then show ?thesis using g t(2,3) by (simp add: hg)
qed

end
